theory Spec2Isabelle
  imports Main
begin

section \<open>jqURL: the cache scan, the retry loop and the query output of \<open>main.go\<close>\<close>

text \<open>
  The program keeps its configuration and its working data in package-level variables.
  The flags that \<open>params.Parse\<close> fills in are read-only afterwards and form the record
  \<open>flags\<close>; the variables \<open>main\<close> assigns later (\<open>JQString\<close>, \<open>Args\<close>, \<open>urls\<close>,
  \<open>cacheFiles\<close>, \<open>dat\<close>) form the record \<open>globals\<close>. Everything the program asks of the
  operating system, the network and its libraries is a field of the record \<open>world\<close>.
  The flags \<open>includeHeader\<close>, \<open>followRedirects\<close>, \<open>certIgnore\<close> and \<open>timeout\<close> only
  change what is written to standard error or how the transport answers, so they live
  inside the answers of \<open>client_Do\<close>; diagnostics on standard error (\<open>log.Println\<close>,
  \<open>Fprintf(os.Stderr, ...)\<close>) are not recorded.
\<close>

subsection \<open>Data\<close>

record flags =
  pretty :: bool
  flush :: bool
  useCache :: bool
  debug :: bool
  raw :: bool
  cacheDir :: string
  outputFile :: string
  maxAge :: int
  postData :: string
  Headers :: "(string \<times> string) list"
  delay :: int
  maxTries :: int
  httpMethod :: string
  docker :: string
  ca :: string
  cert :: string
  key :: string
  argv :: "string list"

text \<open>
  \<open>maxAge\<close> and \<open>delay\<close> are \<open>time.Duration\<close> values and file times are \<open>time.Time\<close>
  values; both are integers counting nanoseconds, and \<open>Time.Add\<close> is addition (the
  saturation of \<open>Time.Add\<close> at the ends of the representable range is left out).
  \<open>maxTries\<close> is a Go \<open>int\<close>; the loop counter never passes it, so it cannot wrap.
  \<open>Headers\<close> is a Go map; the list gives its entries in the order the \<open>range\<close> loop
  visits them. \<open>argv\<close> is the value of \<open>params.Args()\<close>, and \<open>httpMethod\<close> is the
  variable \<open>method\<close> of the source.
\<close>

text \<open>
  What \<open>json.Unmarshal\<close> accepts, that is, stores through a \<open>*map[string]interface{}\<close>
  without returning an error: the JSON value \<open>null\<close> or a JSON object.
\<close>

datatype 'v jdoc = JNull | JObject "string \<rightharpoonup> 'v"

datatype http_result =
    DoError string
  | ReadError
  | Body string

datatype 'v item = Value 'v | QError string

record 'v world =
  ca_readable :: "string \<Rightarrow> bool"
  keypair_ok :: "string \<Rightarrow> string \<Rightarrow> bool"
  url_Parse :: "string \<Rightarrow> string + string"
  uid :: string
  sha1_hex :: "string \<Rightarrow> string"
  os_Stat :: "string \<Rightarrow> int option"
  time_Now :: "nat \<Rightarrow> int"
  read_File :: "string \<Rightarrow> string option"
  json_decode :: "string \<Rightarrow> 'v jdoc option"
  json_partial :: "string \<Rightarrow> (string \<rightharpoonup> 'v)"
  netns_ok :: "string \<Rightarrow> bool"
  os_Open :: "nat \<Rightarrow> string \<Rightarrow> bool"
  new_Request :: "string \<Rightarrow> string \<Rightarrow> bool"
  client_Do :: "nat \<Rightarrow> string \<Rightarrow> string \<Rightarrow> http_result"
  write_File :: "string \<Rightarrow> string \<Rightarrow> bool"
  gojq_Parse :: "string \<Rightarrow> bool"
  query_Run :: "string \<Rightarrow> (string \<rightharpoonup> 'v) \<Rightarrow> nat \<Rightarrow> 'v item option"
  os_Create :: "nat \<Rightarrow> string \<Rightarrow> bool"
  fmt_v :: "'v \<Rightarrow> string"
  fmt_gosyntax :: "'v \<Rightarrow> string"
  json_Marshal :: "'v \<Rightarrow> string"
  json_MarshalIndent :: "'v \<Rightarrow> string"

text \<open>
  \<^item> \<open>url_Parse a\<close> is \<open>Inl msg\<close> when \<open>url.Parse\<close> fails and \<open>Inr u\<close> otherwise, \<open>u\<close> being
    the text \<open>urls[i].String()\<close> gives back.
  \<^item> \<open>uid\<close> is the decimal text of \<open>os.Getuid()\<close>; \<open>sha1_hex\<close> is SHA-1 printed with \<open>%x\<close>.
  \<^item> \<open>os_Stat p\<close> is \<open>Some t\<close> when \<open>os.Stat\<close> succeeds, \<open>t\<close> the modification time;
    \<open>time_Now i\<close> is what \<open>time.Now()\<close> returns in iteration \<open>i\<close> of the cache scan;
    \<open>read_File p\<close> is the content of \<open>p\<close>, \<open>None\<close> when \<open>ioutil.ReadFile\<close> fails.
  \<^item> \<open>json_decode b\<close> is \<open>None\<close> when \<open>json.Unmarshal\<close> returns an error for the bytes
    \<open>b\<close>, and \<open>json_partial b\<close> then holds the entries it has stored in the map before
    returning: none for a syntax error (the input is checked before anything is
    decoded) and for a top-level array, string, number or boolean; the keys of the
    object for a well-formed object with a number outside the range of \<open>float64\<close>,
    such as \<open>{"a":1e999}\<close>, where the error is saved and decoding goes on.
  \<^item> \<open>os_Open j p\<close>, \<open>new_Request m u\<close>, \<open>write_File p b\<close>, \<open>os_Create k p\<close>,
    \<open>gojq_Parse q\<close>, \<open>netns_ok d\<close>, \<open>ca_readable p\<close>, \<open>keypair_ok c k\<close> say whether the
    call returns without an error (\<open>j\<close> the attempt, \<open>k\<close> the index of the query result).
  \<^item> \<open>client_Do j m u\<close> is the answer to the request of attempt \<open>j\<close>: \<open>DoError msg\<close> when
    \<open>client.Do\<close> returns an error, \<open>ReadError\<close> when reading the body fails, \<open>Body b\<close>
    otherwise.
  \<^item> \<open>query_Run q d\<close> is the iterator \<open>query.Run(dat)\<close>: its \<open>k\<close>-th call of \<open>Next\<close>
    returns \<open>it k\<close>, \<open>None\<close> standing for \<open>ok = false\<close>. An iterator may never end.
\<close>

record 'v globals =
  JQString :: string
  Args :: "string list"
  urls :: "string list"
  cacheFiles :: "string list"
  dat :: "string \<rightharpoonup> 'v"

datatype event =
    Usage
  | Stat string
  | ReadFile string
  | OpenFile string
  | Request string string
  | WriteFile string string
  | Sleep int
  | Stdout string
  | Create string
  | FileWrite string string

text \<open>
  A run is observed as the list of its calls, in order: \<open>Stat p\<close> and \<open>ReadFile p\<close> for
  the cache scan, \<open>OpenFile p\<close> for the POST body, \<open>Request m u\<close> for \<open>client.Do\<close>,
  \<open>WriteFile p b\<close> for the cache write, \<open>Sleep d\<close>, \<open>Stdout s\<close> for text printed on
  standard output, \<open>Create p\<close> and \<open>FileWrite p s\<close> for the output file, \<open>Usage\<close> for the
  help text. A process ends with an exit code: 0 when \<open>main\<close> returns, 1 for
  \<open>os.Exit(1)\<close> and \<open>log.Fatalf\<close>, 2 for a run-time panic.
\<close>

datatype ctl = Continue | Break | Abort nat

definition newline :: string where
  "newline = [CHR 0x0A]"

subsection \<open>\<open>json.Unmarshal(byt, &dat)\<close>\<close>

text \<open>
  The result is the error flag and the new value of \<open>dat\<close>. \<open>null\<close> sets the map to the
  nil map; an object is decoded into the existing map, keeping the entries whose keys
  the object does not mention. An error does not undo what was stored before it: the
  map then holds its old entries and those of \<open>json_partial\<close>.
\<close>

definition json_Unmarshal :: "'v world \<Rightarrow> string \<Rightarrow> (string \<rightharpoonup> 'v) \<Rightarrow> bool \<times> (string \<rightharpoonup> 'v)" where
  "json_Unmarshal w byt d =
     (case json_decode w byt of
        None \<Rightarrow> (True, d ++ json_partial w byt)
      | Some JNull \<Rightarrow> (False, Map.empty)
      | Some (JObject m) \<Rightarrow> (False, d ++ m))"

subsection \<open>The cache scan (\<open>main\<close>, lines 148 to 174)\<close>

definition cacheFile :: "flags \<Rightarrow> 'v world \<Rightarrow> string \<Rightarrow> string" where
  "cacheFile f w Arg = cacheDir f @ ''/jqurl_'' @ sha1_hex w (Arg @ uid w)"

text \<open>
  \<open>cache_scan f w as i cfs\<close> runs the loop from index \<open>i\<close> on, \<open>as\<close> being the arguments
  still to visit and \<open>cfs\<close> the slice \<open>cacheFiles\<close>. It returns \<open>cacheFiles\<close>, \<open>dat\<close> and
  the calls made. \<open>dat\<close> is the nil map until the one call of \<open>json.Unmarshal\<close>, whose
  error is dropped; the \<open>break\<close> follows in either case.
\<close>

fun cache_scan :: "flags \<Rightarrow> 'v world \<Rightarrow> string list \<Rightarrow> nat \<Rightarrow> string list
    \<Rightarrow> string list \<times> (string \<rightharpoonup> 'v) \<times> event list" where
  "cache_scan f w [] i cfs = (cfs, Map.empty, [])"
| "cache_scan f w (Arg # rest) i cfs =
     (let p = cacheFile f w Arg; cfs' = cfs[i := p] in
      case os_Stat w p of
        None \<Rightarrow>
          (case cache_scan f w rest (Suc i) cfs' of (c, d, es) \<Rightarrow> (c, d, Stat p # es))
      | Some mtime \<Rightarrow>
          if \<not> flush f \<and> useCache f \<and> time_Now w i + maxAge f > mtime then
            (case read_File w p of
               None \<Rightarrow>
                 (case cache_scan f w rest (Suc i) cfs' of
                    (c, d, es) \<Rightarrow> (c, d, Stat p # ReadFile p # es))
             | Some byt \<Rightarrow>
                 (cfs', snd (json_Unmarshal w byt Map.empty), [Stat p, ReadFile p]))
          else
            (case cache_scan f w rest (Suc i) cfs' of (c, d, es) \<Rightarrow> (c, d, Stat p # es)))"

subsection \<open>One iteration of the retry loop (\<open>doCurl\<close>, lines 216 to 296)\<close>

definition header_line :: "string \<times> string \<Rightarrow> event" where
  "header_line kv = Stdout (''Request Header: '' @ fst kv @ '': '' @ snd kv @ newline)"

definition error_line :: "string \<Rightarrow> event" where
  "error_line msg = Stdout (''Error doing http request: '' @ msg @ newline)"

definition sleep_check :: "flags \<Rightarrow> 'v globals \<Rightarrow> nat \<Rightarrow> event list" where
  "sleep_check f g i =
     (if i mod length (Args g) = length (Args g) - 1 then [Sleep (delay f)] else [])"

definition post_file :: "flags \<Rightarrow> event list" where
  "post_file f =
     (if httpMethod f = ''POST'' \<and> postData f \<noteq> [] \<and> hd (postData f) = CHR ''@''
      then [OpenFile (tl (postData f))] else [])"

definition request_events :: "flags \<Rightarrow> 'v globals \<Rightarrow> nat \<Rightarrow> event list" where
  "request_events f g i =
     post_file f @ (if debug f then map header_line (Headers f) else [])
       @ [Request (httpMethod f) (urls g ! i)]"

text \<open>
  \<open>attempt f w g j\<close> is the body of the loop for the counter \<open>j\<close>: how it leaves
  (\<open>Continue\<close> at the end of the body, \<open>Break\<close>, or \<open>Abort\<close> with the exit code),
  the value of \<open>dat\<close> afterwards (the only global the loop assigns) and the calls made.
  With an empty \<open>Args\<close> the remainder \<open>j % len(Args)\<close> panics, and an index beyond
  \<open>urls\<close> or \<open>cacheFiles\<close> panics where the slice is read (\<open>main\<close> makes both as long
  as \<open>Args\<close>).
\<close>

definition attempt :: "flags \<Rightarrow> 'v world \<Rightarrow> 'v globals \<Rightarrow> nat
    \<Rightarrow> ctl \<times> (string \<rightharpoonup> 'v) \<times> event list" where
  "attempt f w g j =
     (if Args g = [] then (Abort 2, dat g, [])
      else
        let i = j mod length (Args g) in
        if debug f \<and> length (urls g) \<le> i then (Abort 2, dat g, [])
        else if post_file f \<noteq> [] \<and> \<not> os_Open w j (tl (postData f))
          then (Abort 1, dat g, post_file f)
        else if length (urls g) \<le> i then (Abort 2, dat g, post_file f)
        else if \<not> new_Request w (httpMethod f) (urls g ! i) then (Abort 1, dat g, post_file f)
        else
          case client_Do w j (httpMethod f) (urls g ! i) of
            DoError msg \<Rightarrow>
              (Continue, dat g,
               request_events f g i
                 @ (if debug f then [error_line msg] else [])
                 @ sleep_check f g i)
          | ReadError \<Rightarrow> (Continue, dat g, request_events f g i @ sleep_check f g i)
          | Body byt \<Rightarrow>
              (case json_Unmarshal w byt (dat g) of
                 (True, d) \<Rightarrow>
                   if debug f then (Abort 1, d, request_events f g i)
                   else (Continue, d, request_events f g i @ sleep_check f g i)
               | (False, d) \<Rightarrow>
                   if \<not> useCache f then (Break, d, request_events f g i)
                   else if length (cacheFiles g) \<le> i then (Abort 2, d, request_events f g i)
                   else if \<not> write_File w (cacheFiles g ! i) byt \<and> debug f
                     then (Abort 1, d, request_events f g i @ [WriteFile (cacheFiles g ! i) byt])
                     else (Break, d, request_events f g i @ [WriteFile (cacheFiles g ! i) byt])))"

subsection \<open>The retry loop (\<open>doCurl\<close>, line 215)\<close>

text \<open>
  \<open>doCurl_loop f w g j\<close> is the \<open>for\<close> statement from the counter \<open>j\<close> on. It returns the
  exit code when an iteration ended the process (\<open>None\<close> when the loop was left by its
  condition or by \<open>break\<close>), the value of \<open>dat\<close> and the calls made.
\<close>

function doCurl_loop :: "flags \<Rightarrow> 'v world \<Rightarrow> 'v globals \<Rightarrow> nat
    \<Rightarrow> nat option \<times> (string \<rightharpoonup> 'v) \<times> event list" where
  "doCurl_loop f w g j =
     (if int j < maxTries f \<and> dat g = Map.empty then
        (case attempt f w g j of
           (Continue, d, es) \<Rightarrow>
             (case doCurl_loop f w (g\<lparr>dat := d\<rparr>) (Suc j) of (r, d', es') \<Rightarrow> (r, d', es @ es'))
         | (Break, d, es) \<Rightarrow> (None, d, es)
         | (Abort n, d, es) \<Rightarrow> (Some n, d, es))
      else (None, dat g, []))"
  by pat_completeness auto
termination
  by (relation "measure (\<lambda>(f, w, g, j). nat (maxTries f) - j)") auto

declare doCurl_loop.simps [simp del]

subsection \<open>The query and its output (\<open>doCurl\<close>, lines 299 to 337)\<close>

definition render :: "flags \<Rightarrow> 'v world \<Rightarrow> 'v \<Rightarrow> string" where
  "render f w v =
     (if raw f then fmt_v w v @ newline
      else (if pretty f then json_MarshalIndent w v else json_Marshal w v) @ newline)"

definition debug_value :: "flags \<Rightarrow> 'v world \<Rightarrow> 'v \<Rightarrow> event list" where
  "debug_value f w v = (if debug f then [Stdout (fmt_gosyntax w v @ newline)] else [])"

text \<open>
  \<open>emit f w it k\<close> is the loop over the results from the \<open>k\<close>-th call of \<open>Next\<close> on: the
  exit code and the calls made, or \<open>None\<close> when the iterator never ends. \<open>os.Create\<close>
  truncates the file, and the one \<open>Fprintf\<close> through the new handle writes at its start.
\<close>

partial_function (option) emit :: "flags \<Rightarrow> 'v world \<Rightarrow> (nat \<Rightarrow> 'v item option) \<Rightarrow> nat
    \<Rightarrow> (nat \<times> event list) option" where
  "emit f w it k =
     (case it k of
        None \<Rightarrow> Some (0, [])
      | Some (QError msg) \<Rightarrow> Some (1, [])
      | Some (Value v) \<Rightarrow>
          if outputFile f \<noteq> [] then
            (if \<not> os_Create w k (outputFile f)
             then Some (1, debug_value f w v @ [Create (outputFile f)])
             else Option.bind (emit f w it (Suc k))
                    (\<lambda>r. Some (fst r, debug_value f w v
                                  @ [Create (outputFile f), FileWrite (outputFile f) (render f w v)]
                                  @ snd r)))
          else Option.bind (emit f w it (Suc k))
                 (\<lambda>r. Some (fst r, debug_value f w v @ [Stdout (render f w v)] @ snd r)))"

definition run_query :: "flags \<Rightarrow> 'v world \<Rightarrow> 'v globals \<Rightarrow> (nat \<times> event list) option" where
  "run_query f w g =
     (if \<not> gojq_Parse w (JQString g) then Some (1, [])
      else emit f w (query_Run w (JQString g) (dat g)) 0)"

definition after :: "event list \<Rightarrow> (nat \<times> event list) option \<Rightarrow> (nat \<times> event list) option" where
  "after es r = map_option (\<lambda>x. (fst x, es @ snd x)) r"

definition doCurl :: "flags \<Rightarrow> 'v world \<Rightarrow> 'v globals \<Rightarrow> (nat \<times> event list) option" where
  "doCurl f w g =
     (case doCurl_loop f w g 0 of
        (Some n, d, es) \<Rightarrow> Some (n, es)
      | (None, d, es) \<Rightarrow> after es (run_query f w (g\<lparr>dat := d\<rparr>)))"

subsection \<open>\<open>main\<close>, from the parsed flags on\<close>

fun parse_urls :: "'v world \<Rightarrow> string list \<Rightarrow> string + string list" where
  "parse_urls w [] = Inr []"
| "parse_urls w (Arg # rest) =
     (case url_Parse w Arg of
        Inl msg \<Rightarrow> Inl msg
      | Inr u \<Rightarrow> (case parse_urls w rest of Inl msg \<Rightarrow> Inl msg | Inr us \<Rightarrow> Inr (u # us)))"

definition main :: "flags \<Rightarrow> 'v world \<Rightarrow> (nat \<times> event list) option" where
  "main f w =
     (if ca f \<noteq> [] \<and> \<not> ca_readable w (ca f) then Some (1, [])
      else
        let key' = (if cert f \<noteq> [] \<and> key f = [] then cert f else key f) in
        if cert f \<noteq> [] \<and> key' \<noteq> [] \<and> \<not> keypair_ok w (cert f) key' then Some (1, [])
        else if length (argv f) < 2 then Some (1, [Usage])
        else
          let A = tl (argv f) in
          case parse_urls w A of
            Inl msg \<Rightarrow> Some (1, [Stdout (''Malformed URL: '' @ msg @ newline)])
          | Inr us \<Rightarrow>
              (case cache_scan f w A 0 (replicate (length A) []) of
                 (cfs, d, es) \<Rightarrow>
                   if docker f \<noteq> [] \<and> \<not> netns_ok w (docker f) then Some (1, es)
                   else after es
                     (doCurl f w \<lparr>JQString = hd (argv f), Args = A, urls = us,
                                  cacheFiles = cfs, dat = d\<rparr>)))"


section \<open>Vocabulary of the properties\<close>

subsection \<open>Kinds of calls\<close>

fun is_Request :: "event \<Rightarrow> bool" where
  "is_Request (Request m u) = True"
| "is_Request e = False"

fun is_Sleep :: "event \<Rightarrow> bool" where
  "is_Sleep (Sleep d) = True"
| "is_Sleep e = False"

fun is_Stat :: "event \<Rightarrow> bool" where
  "is_Stat (Stat p) = True"
| "is_Stat e = False"

fun is_ReadFile :: "event \<Rightarrow> bool" where
  "is_ReadFile (ReadFile p) = True"
| "is_ReadFile e = False"

fun is_WriteFile :: "event \<Rightarrow> bool" where
  "is_WriteFile (WriteFile p b) = True"
| "is_WriteFile e = False"

fun is_Create :: "event \<Rightarrow> bool" where
  "is_Create (Create p) = True"
| "is_Create e = False"

text \<open>The calls that touch the cache files.\<close>

definition is_cache :: "event \<Rightarrow> bool" where
  "is_cache e = (is_WriteFile e \<or> is_ReadFile e \<or> is_Stat e)"

text \<open>The requests and the delays of a run, in order.\<close>

definition net_events :: "event list \<Rightarrow> event list" where
  "net_events es = filter (\<lambda>e. is_Request e \<or> is_Sleep e) es"

subsection \<open>The retry loop\<close>

text \<open>What \<open>main\<close> guarantees when it calls \<open>doCurl\<close>: at least one target, and the three slices of one length.\<close>

definition well_formed :: "'v globals \<Rightarrow> bool" where
  "well_formed g = (Args g \<noteq> [] \<and> length (urls g) = length (Args g)
                    \<and> length (cacheFiles g) = length (Args g))"

text \<open>The request of attempt \<open>j\<close> can be sent: a POST body file opens and \<open>http.NewRequestWithContext\<close> succeeds.\<close>

definition builds :: "flags \<Rightarrow> 'v world \<Rightarrow> 'v globals \<Rightarrow> nat \<Rightarrow> bool" where
  "builds f w g j =
     ((post_file f = [] \<or> os_Open w j (tl (postData f)))
      \<and> new_Request w (httpMethod f) (urls g ! (j mod length (Args g))))"

definition response :: "flags \<Rightarrow> 'v world \<Rightarrow> 'v globals \<Rightarrow> nat \<Rightarrow> http_result" where
  "response f w g j = client_Do w j (httpMethod f) (urls g ! (j mod length (Args g)))"

text \<open>
  Attempt \<open>j\<close> fails and leaves \<open>dat\<close> as it was: its request is sent and the iteration
  reaches the end of the loop body, because \<open>client.Do\<close> or the read of the body
  returns an error, or because \<open>json.Unmarshal\<close> rejects the body, having stored
  nothing, while \<open>debug\<close> is off.
\<close>

definition attempt_fails :: "flags \<Rightarrow> 'v world \<Rightarrow> 'v globals \<Rightarrow> nat \<Rightarrow> bool" where
  "attempt_fails f w g j =
     (builds f w g j \<and>
      (case response f w g j of
         DoError msg \<Rightarrow> True
       | ReadError \<Rightarrow> True
       | Body byt \<Rightarrow>
           json_decode w byt = None \<and> json_partial w byt = Map.empty \<and> \<not> debug f))"

text \<open>The request of a failed attempt \<open>k\<close>, and the delay that follows it when \<open>k\<close> ends a cycle.\<close>

definition round_robin :: "flags \<Rightarrow> 'v globals \<Rightarrow> nat \<Rightarrow> event list" where
  "round_robin f g k =
     Request (httpMethod f) (urls g ! (k mod length (Args g)))
       # (if k mod length (Args g) = length (Args g) - 1 then [Sleep (delay f)] else [])"

subsection \<open>The cache scan\<close>

text \<open>The test of line 158, and a hit: the test passes and the file can be read.\<close>

definition cache_fresh :: "flags \<Rightarrow> 'v world \<Rightarrow> nat \<Rightarrow> string \<Rightarrow> bool" where
  "cache_fresh f w i Arg =
     (case os_Stat w (cacheFile f w Arg) of
        None \<Rightarrow> False
      | Some mtime \<Rightarrow> \<not> flush f \<and> useCache f \<and> time_Now w i + maxAge f > mtime)"

definition cache_hit :: "flags \<Rightarrow> 'v world \<Rightarrow> nat \<Rightarrow> string \<Rightarrow> bool" where
  "cache_hit f w i Arg = (cache_fresh f w i Arg \<and> read_File w (cacheFile f w Arg) \<noteq> None)"

text \<open>The calls of an iteration of the scan that does not end it.\<close>

definition miss_events :: "flags \<Rightarrow> 'v world \<Rightarrow> nat \<Rightarrow> string \<Rightarrow> event list" where
  "miss_events f w i Arg =
     Stat (cacheFile f w Arg)
       # (if cache_fresh f w i Arg then [ReadFile (cacheFile f w Arg)] else [])"

text \<open>The first hit of the scan is at index \<open>i0\<close>.\<close>

definition first_hit :: "flags \<Rightarrow> 'v world \<Rightarrow> string list \<Rightarrow> nat \<Rightarrow> bool" where
  "first_hit f w A i0 =
     (i0 < length A \<and> cache_hit f w i0 (A ! i0) \<and> (\<forall>k<i0. \<not> cache_hit f w k (A ! k)))"

subsection \<open>Start-up\<close>

text \<open>
  \<open>main\<close> reaches the cache scan and then \<open>doCurl\<close>: the certificate files load, there
  are a query and at least one URL, every URL parses (to \<open>us\<close>), and a requested network
  namespace is entered.
\<close>

definition startup_ok :: "flags \<Rightarrow> 'v world \<Rightarrow> string list \<Rightarrow> bool" where
  "startup_ok f w us =
     ((ca f = [] \<or> ca_readable w (ca f))
      \<and> (cert f = [] \<or> keypair_ok w (cert f) (if key f = [] then cert f else key f))
      \<and> 2 \<le> length (argv f)
      \<and> parse_urls w (tl (argv f)) = Inr us
      \<and> (docker f = [] \<or> netns_ok w (docker f)))"

definition globals_of :: "flags \<Rightarrow> string list \<Rightarrow> string list \<Rightarrow> (string \<rightharpoonup> 'v) \<Rightarrow> 'v globals" where
  "globals_of f us cfs d =
     \<lparr>JQString = hd (argv f), Args = tl (argv f), urls = us, cacheFiles = cfs, dat = d\<rparr>"

subsection \<open>The output\<close>

text \<open>The calls the result loop makes for one value.\<close>

definition result_events :: "flags \<Rightarrow> 'v world \<Rightarrow> 'v \<Rightarrow> event list" where
  "result_events f w v =
     debug_value f w v
       @ (if outputFile f \<noteq> [] then [Create (outputFile f), FileWrite (outputFile f) (render f w v)]
          else [Stdout (render f w v)])"

text \<open>
  The iterator yields the values \<open>v 0, \<dots>, v (n - 1)\<close> and then ends.
\<close>

definition yields :: "(nat \<Rightarrow> 'v item option) \<Rightarrow> nat \<Rightarrow> (nat \<Rightarrow> 'v) \<Rightarrow> bool" where
  "yields it n v = ((\<forall>k<n. it k = Some (Value (v k))) \<and> it n = None)"

text \<open>
  The content of the file \<open>p\<close> after a list of calls, \<open>c\<close> being its content before
  (\<open>None\<close>: no such file): \<open>Create p\<close> leaves it empty, and the writes through the handle
  just created follow one another from its start.
\<close>

fun file_content :: "string \<Rightarrow> event list \<Rightarrow> string option \<Rightarrow> string option" where
  "file_content p [] c = c"
| "file_content p (Create q # es) c = file_content p es (if q = p then Some [] else c)"
| "file_content p (FileWrite q s # es) c =
     file_content p es (if q = p then map_option (\<lambda>x. x @ s) c else c)"
| "file_content p (e # es) c = file_content p es c"

text \<open>The text on standard output.\<close>

fun stdout_of :: "event list \<Rightarrow> string list" where
  "stdout_of [] = []"
| "stdout_of (Stdout s # es) = s # stdout_of es"
| "stdout_of (e # es) = stdout_of es"

section \<open>Concrete runs\<close>

text \<open>
  \<open>flags0\<close> holds the defaults of the flag declarations, with \<open>/tmp\<close> as the temporary
  directory, a query and two URLs. In \<open>world0\<close> no cache file exists and every request
  times out; SHA-1 is replaced by the identity, values are natural numbers printed as
  strokes, and the query returns the value under the key \<open>x\<close> (0 without it). The
  decoder knows four texts: \<open>{"x":1}\<close>, \<open>{}\<close> and \<open>null\<close> are accepted, \<open>{"a":1e999}\<close> is
  rejected after the key \<open>a\<close> was stored (with 0 for its nil value), and any other text
  is rejected with nothing stored.
\<close>

definition flags0 :: flags where
  "flags0 = \<lparr>pretty = False, flush = False, useCache = False, debug = False, raw = False,
     cacheDir = ''/tmp'', outputFile = [], maxAge = 14400000000000, postData = [],
     Headers = [(''content-type'', ''application/json'')], delay = 7000000000, maxTries = 30,
     httpMethod = ''GET'', docker = [], ca = [], cert = [], key = [],
     argv = [''.x'', ''http://a/'', ''http://b/'']\<rparr>"

definition world0 :: "nat world" where
  \<open>world0 = \<lparr>ca_readable = (\<lambda>p. True), keypair_ok = (\<lambda>c k. True), url_Parse = Inr,
     uid = ''1000'', sha1_hex = (\<lambda>s. s), os_Stat = (\<lambda>p. None), time_Now = (\<lambda>i. 100),
     read_File = (\<lambda>p. None),
     json_decode = (\<lambda>b. if b = ''{"x":1}'' then Some (JObject [''x'' \<mapsto> 1])
                          else if b = ''{}'' then Some (JObject Map.empty)
                          else if b = ''null'' then Some JNull else None),
     json_partial = (\<lambda>b. if b = ''{"a":1e999}'' then [''a'' \<mapsto> 0] else Map.empty),
     netns_ok = (\<lambda>d. True), os_Open = (\<lambda>j p. True), new_Request = (\<lambda>m u. True),
     client_Do = (\<lambda>j m u. DoError ''timeout''), write_File = (\<lambda>p b. True),
     gojq_Parse = (\<lambda>q. True),
     query_Run = (\<lambda>q d k. if k = 0 then Some (Value (case d ''x'' of None \<Rightarrow> 0 | Some v \<Rightarrow> v))
                            else None),
     os_Create = (\<lambda>k p. True), fmt_v = (\<lambda>v. replicate v CHR ''|''),
     fmt_gosyntax = (\<lambda>v. replicate v CHR ''|''), json_Marshal = (\<lambda>v. replicate v CHR ''|''),
     json_MarshalIndent = (\<lambda>v. replicate v CHR ''|'')\<rparr>\<close>

definition globals0 :: "nat globals" where
  "globals0 = \<lparr>JQString = ''.x'', Args = [''http://a/'', ''http://b/''],
     urls = [''http://a/'', ''http://b/''], cacheFiles = [''/tmp/a'', ''/tmp/b''],
     dat = Map.empty\<rparr>"

section \<open>Properties of one iteration\<close>

lemma wf_index:
  assumes "well_formed g"
  shows "Args g \<noteq> [] \<and> \<not> length (urls g) \<le> j mod length (Args g)
    \<and> \<not> length (cacheFiles g) \<le> j mod length (Args g)"
  using assms by (simp add: well_formed_def not_le)

lemma net_header: "net_events (map header_line hs) = []"
  by (induction hs) (simp_all add: header_line_def net_events_def)

lemma net_post_file: "net_events (post_file f) = []"
  by (simp add: post_file_def net_events_def)

lemma net_append: "net_events (xs @ ys) = net_events xs @ net_events ys"
  by (simp add: net_events_def)

lemma net_request_events:
  "net_events (request_events f g i) = [Request (httpMethod f) (urls g ! i)]"
  by (simp add: request_events_def net_append net_header net_post_file) (simp add: net_events_def)

lemma net_sleep_check: "net_events (sleep_check f g i) = sleep_check f g i"
  by (simp add: sleep_check_def net_events_def)

lemma net_debug_line: "net_events (if b then [error_line s] else []) = []"
  by (simp add: net_events_def error_line_def)

lemma net_error_Cons: "net_events (error_line s # es) = net_events es"
  by (simp add: net_events_def error_line_def)

lemma net_Nil: "net_events [] = []"
  by (simp add: net_events_def)

lemma net_WriteFile: "net_events [WriteFile p b] = []"
  by (simp add: net_events_def)

lemmas net_simps = net_append net_request_events net_sleep_check net_debug_line net_post_file
  net_Nil net_WriteFile net_error_Cons

lemma filter_net_Request: "filter is_Request (net_events es) = filter is_Request es"
  by (induction es) (simp_all add: net_events_def)


lemma round_robin_sleep:
  "round_robin f g k
     = Request (httpMethod f) (urls g ! (k mod length (Args g))) # sleep_check f g (k mod length (Args g))"
  by (simp add: round_robin_def sleep_check_def)

text \<open>Once the request is built, the iteration is decided by the answer.\<close>

lemma attempt_built:
  assumes "well_formed g" "builds f w g j"
  shows "attempt f w g j =
     (let i = j mod length (Args g) in
      case response f w g j of
        DoError msg \<Rightarrow>
          (Continue, dat g,
           request_events f g i @ (if debug f then [error_line msg] else []) @ sleep_check f g i)
      | ReadError \<Rightarrow> (Continue, dat g, request_events f g i @ sleep_check f g i)
      | Body byt \<Rightarrow>
          (case json_Unmarshal w byt (dat g) of
             (True, d) \<Rightarrow>
               if debug f then (Abort 1, d, request_events f g i)
               else (Continue, d, request_events f g i @ sleep_check f g i)
           | (False, d) \<Rightarrow>
               if \<not> useCache f then (Break, d, request_events f g i)
               else if \<not> write_File w (cacheFiles g ! i) byt \<and> debug f
                 then (Abort 1, d, request_events f g i @ [WriteFile (cacheFiles g ! i) byt])
                 else (Break, d, request_events f g i @ [WriteFile (cacheFiles g ! i) byt])))"
proof -
  from assms(2) have b: "post_file f = [] \<or> os_Open w j (tl (postData f))"
    "new_Request w (httpMethod f) (urls g ! (j mod length (Args g)))"
    by (auto simp: builds_def)
  show ?thesis
  proof (cases "response f w g j")
    case (Body byt)
    then show ?thesis
      unfolding attempt_def Let_def
      using wf_index[OF assms(1), of j] b
      by (cases "json_Unmarshal w byt (dat g)"; cases "post_file f = []")
         (simp_all add: response_def)
  qed (use wf_index[OF assms(1), of j] b in
        \<open>cases "post_file f = []"; simp add: attempt_def response_def Let_def\<close>)+
qed

lemma attempt_fails_Continue:
  assumes "well_formed g" "attempt_fails f w g j"
  shows "\<exists>es. attempt f w g j = (Continue, dat g, es) \<and> net_events es = round_robin f g j"
proof -
  from assms(2) have b: "builds f w g j" by (simp add: attempt_fails_def)
  show ?thesis
  proof (cases "response f w g j")
    case (DoError msg)
    then show ?thesis
      by (simp add: attempt_built[OF assms(1) b] Let_def net_simps round_robin_sleep)
  next
    case ReadError
    then show ?thesis
      by (simp add: attempt_built[OF assms(1) b] Let_def net_simps round_robin_sleep)
  next
    case (Body byt)
    with assms(2) have "json_decode w byt = None" "json_partial w byt = Map.empty" "\<not> debug f"
      by (simp_all add: attempt_fails_def)
    with Body show ?thesis
      by (simp add: attempt_built[OF assms(1) b] Let_def json_Unmarshal_def net_simps
          round_robin_sleep)
  qed
qed

text \<open>An iteration that reaches the end of the body has sent its request, and slept
  when its target was the last of the cycle.\<close>

lemma attempt_Continue:
  assumes "attempt f w g j = (Continue, d, es)"
  shows "net_events es = round_robin f g j"
  using assms unfolding attempt_def Let_def json_Unmarshal_def
  by (auto simp: net_simps round_robin_sleep
      split: if_splits http_result.splits option.splits jdoc.splits)

text \<open>An iteration that leaves the loop sends at most its own request and never sleeps.\<close>

lemma attempt_leaves:
  assumes "attempt f w g j = (c, d, es)" "c \<noteq> Continue"
  shows "net_events es = [] \<or> net_events es = [Request (httpMethod f) (urls g ! (j mod length (Args g)))]"
  using assms unfolding attempt_def Let_def json_Unmarshal_def
  by (auto simp: net_simps
      split: if_splits http_result.splits option.splits jdoc.splits)

lemma req_request_events:
  "filter is_Request (request_events f g i) = [Request (httpMethod f) (urls g ! i)]"
  using arg_cong[OF net_request_events[of f g i], of "filter is_Request"]
  by (simp only: filter_net_Request) simp

lemma req_sleep_check: "filter is_Request (sleep_check f g i) = []"
  by (simp add: sleep_check_def)

text \<open>
  An iteration changes an empty \<open>dat\<close> only by its one call of \<open>json.Unmarshal\<close>, on the
  body of the answer to its request, whether the call returns an error or not; the
  request is the only one the iteration sends.
\<close>

lemma attempt_fills:
  assumes "attempt f w g j = (c, d, es)" "dat g = Map.empty" "d \<noteq> Map.empty"
  shows "\<exists>byt. response f w g j = Body byt \<and> d = snd (json_Unmarshal w byt Map.empty)
           \<and> filter is_Request es = [Request (httpMethod f) (urls g ! (j mod length (Args g)))]"
  using assms unfolding attempt_def Let_def response_def
  by (auto simp: req_request_events req_sleep_check
      split: if_splits http_result.splits prod.splits bool.splits)

section \<open>Properties of the retry loop\<close>

lemma loop_stopped: "dat g \<noteq> Map.empty \<Longrightarrow> doCurl_loop f w g j = (None, dat g, [])"
  by (subst doCurl_loop.simps) simp

lemma loop_exhausted: "maxTries f \<le> int j \<Longrightarrow> doCurl_loop f w g j = (None, dat g, [])"
  by (subst doCurl_loop.simps) simp

text \<open>Failed attempts are passed over: the loop goes on with the next counter.\<close>

lemma loop_skip_failures:
  assumes wf: "well_formed g" and e: "dat g = Map.empty" and k: "int k \<le> maxTries f"
    and fails: "\<forall>i. j \<le> i \<and> i < k \<longrightarrow> attempt_fails f w g i"
  shows "j \<le> k \<Longrightarrow> \<exists>es. net_events es = concat (map (round_robin f g) [j..<k]) \<and>
           doCurl_loop f w g j
             = (case doCurl_loop f w g k of (r, d, es') \<Rightarrow> (r, d, es @ es'))"
  using fails
proof (induction "k - j" arbitrary: j)
  case 0
  then have "j = k" by simp
  then show ?case
    by (intro exI[of _ "[]"]) (simp add: net_Nil split: prod.split)
next
  case (Suc n)
  then have lt: "j < k" and n: "n = k - Suc j" and le: "Suc j \<le> k" by simp_all
  from Suc.prems(2) lt have "attempt_fails f w g j" by simp
  from attempt_fails_Continue[OF wf this]
  obtain es where a: "attempt f w g j = (Continue, dat g, es)" and ne: "net_events es = round_robin f g j"
    by blast
  from Suc.prems(2) have "\<forall>i. Suc j \<le> i \<and> i < k \<longrightarrow> attempt_fails f w g i" by simp
  from Suc.hyps(1)[OF n le this]
  obtain es' where ne': "net_events es' = concat (map (round_robin f g) [Suc j..<k])"
    and l: "doCurl_loop f w g (Suc j)
             = (case doCurl_loop f w g k of (r, d, es'') \<Rightarrow> (r, d, es' @ es''))"
    by blast
  have "g\<lparr>dat := dat g\<rparr> = g" by simp
  moreover from lt k have "int j < maxTries f" by simp
  ultimately have "doCurl_loop f w g j
       = (case doCurl_loop f w g k of (r, d, es'') \<Rightarrow> (r, d, (es @ es') @ es''))"
    by (subst doCurl_loop.simps) (simp add: a l e[symmetric] split: prod.split del: e)
  moreover have "net_events (es @ es') = concat (map (round_robin f g) [j..<k])"
    by (simp add: net_append ne ne' upt_conv_Cons[OF lt])
  ultimately show ?case by blast
qed

lemma loop_all_fail:
  assumes wf: "well_formed g" and e: "dat g = Map.empty" and M: "maxTries f = int M"
    and fails: "\<forall>k<M. attempt_fails f w g k"
  shows "\<exists>es. doCurl_loop f w g 0 = (None, dat g, es)
           \<and> net_events es = concat (map (round_robin f g) [0..<M])"
proof -
  from fails have "\<forall>i. 0 \<le> i \<and> i < M \<longrightarrow> attempt_fails f w g i" by simp
  from loop_skip_failures[where j = 0 and k = M, OF wf e _ this] M loop_exhausted[of f M w g]
  show ?thesis by auto
qed





text \<open>The requests of the loop, whatever the answers: a prefix of the round-robin sequence.\<close>

lemma loop_requests:
  "well_formed g \<Longrightarrow> doCurl_loop f w g j = (r, d, es) \<Longrightarrow>
     \<exists>n. int (j + n) \<le> max (int j) (maxTries f) \<and>
         filter is_Request es
           = map (\<lambda>k. Request (httpMethod f) (urls g ! (k mod length (Args g)))) [j..<j + n]"
proof (induction f w g j arbitrary: r d es rule: doCurl_loop.induct)
  case (1 f w g j)
  show ?case
  proof (cases "int j < maxTries f \<and> dat g = Map.empty")
    case False
    with "1.prems"(2) have "es = []"
      by (subst (asm) doCurl_loop.simps) auto
    then show ?thesis by (intro exI[of _ 0]) simp
  next
    case True
    obtain c d1 es1 where a: "attempt f w g j = (c, d1, es1)"
      by (cases "attempt f w g j") auto
    show ?thesis
    proof (cases "c = Continue")
      case True
      with a have a': "attempt f w g j = (Continue, d1, es1)" by simp
      from attempt_Continue[OF a'] have ne: "net_events es1 = round_robin f g j" .
      have wf': "well_formed (g\<lparr>dat := d1\<rparr>)"
        using "1.prems"(1) by (simp add: well_formed_def)
      obtain r2 d2 es2 where l: "doCurl_loop f w (g\<lparr>dat := d1\<rparr>) (Suc j) = (r2, d2, es2)"
        by (cases "doCurl_loop f w (g\<lparr>dat := d1\<rparr>) (Suc j)") auto
      from "1.prems"(2) \<open>int j < maxTries f \<and> dat g = Map.empty\<close> a' l
      have es: "es = es1 @ es2"
        by (subst (asm) doCurl_loop.simps) simp
      from "1.IH"[OF \<open>int j < maxTries f \<and> dat g = Map.empty\<close> a'[symmetric] refl refl wf' l]
      obtain n where n: "int (Suc j + n) \<le> max (int (Suc j)) (maxTries f)"
        and rq: "filter is_Request es2
           = map (\<lambda>k. Request (httpMethod f) (urls g ! (k mod length (Args g)))) [Suc j..<Suc j + n]"
        by auto
      have "filter is_Request es1 = [Request (httpMethod f) (urls g ! (j mod length (Args g)))]"
        using arg_cong[OF ne, of "filter is_Request"]
        by (simp add: filter_net_Request round_robin_def)
      moreover have u: "[j..<j + Suc n] = j # [Suc j..<Suc j + n]"
        by (subst upt_rec) simp
      ultimately have "filter is_Request es
           = map (\<lambda>k. Request (httpMethod f) (urls g ! (k mod length (Args g)))) [j..<j + Suc n]"
        unfolding u using rq es by simp
      moreover from n \<open>int j < maxTries f \<and> dat g = Map.empty\<close>
      have "int (j + Suc n) \<le> max (int j) (maxTries f)" by simp
      ultimately show ?thesis by blast
    next
      case False
      with "1.prems"(2) \<open>int j < maxTries f \<and> dat g = Map.empty\<close> a
      have es: "es = es1"
        by (subst (asm) doCurl_loop.simps) (cases c; simp)
      from attempt_leaves[OF a False]
      have "filter is_Request es1 = [] \<or>
            filter is_Request es1 = [Request (httpMethod f) (urls g ! (j mod length (Args g)))]"
        by (metis filter_net_Request filter.simps is_Request.simps(1))
      then show ?thesis
      proof
        assume "filter is_Request es1 = []"
        then show ?thesis using es by (intro exI[of _ 0]) simp
      next
        assume "filter is_Request es1 = [Request (httpMethod f) (urls g ! (j mod length (Args g)))]"
        then show ?thesis using es \<open>int j < maxTries f \<and> dat g = Map.empty\<close>
          by (intro exI[of _ 1]) simp
      qed
    qed
  qed
qed

text \<open>
  A non-empty \<open>dat\<close> at the end of the loop comes from the last iteration the loop ran:
  the iterations before it left \<open>dat\<close> empty, and the calls of the loop end with the
  calls of this one.
\<close>

lemma loop_ends:
  "dat g = Map.empty \<Longrightarrow> doCurl_loop f w g j = (r, d, es) \<Longrightarrow> d \<noteq> Map.empty \<Longrightarrow>
     \<exists>k c es0 es1. j \<le> k \<and> int k < maxTries f
        \<and> (\<forall>i. j \<le> i \<and> i < k \<longrightarrow> fst (snd (attempt f w g i)) = Map.empty)
        \<and> attempt f w g k = (c, d, es1) \<and> es = es0 @ es1"
proof (induction f w g j arbitrary: r d es rule: doCurl_loop.induct)
  case (1 f w g j)
  show ?case
  proof (cases "int j < maxTries f \<and> dat g = Map.empty")
    case False
    with "1.prems"(2) have "d = dat g"
      by (subst (asm) doCurl_loop.simps) auto
    with "1.prems"(1,3) show ?thesis by simp
  next
    case True
    obtain c d1 es1 where a: "attempt f w g j = (c, d1, es1)"
      by (cases "attempt f w g j") auto
    show ?thesis
    proof (cases "c = Continue \<and> d1 = Map.empty")
      case True
      with a have a': "attempt f w g j = (Continue, d1, es1)" and d1: "d1 = Map.empty"
        by simp_all
      have "g\<lparr>dat := dat g\<rparr> = g" by simp
      then have geq: "g\<lparr>dat := d1\<rparr> = g" by (simp only: d1 "1.prems"(1))
      obtain r2 d2 es2 where l: "doCurl_loop f w g (Suc j) = (r2, d2, es2)"
        by (cases "doCurl_loop f w g (Suc j)") auto
      from "1.prems"(2) \<open>int j < maxTries f \<and> dat g = Map.empty\<close> a' l
      have es: "es = es1 @ es2" "d = d2"
        by (subst (asm) doCurl_loop.simps; simp add: geq)+
      from "1.IH"[OF \<open>int j < maxTries f \<and> dat g = Map.empty\<close> a'[symmetric] refl refl, of r2 d2 es2]
        "1.prems"(1,3) l es(2)
      obtain k c' es0 es1' where k: "Suc j \<le> k" "int k < maxTries f"
        "\<forall>i. Suc j \<le> i \<and> i < k \<longrightarrow> fst (snd (attempt f w g i)) = Map.empty"
        "attempt f w g k = (c', d, es1')" "es2 = es0 @ es1'"
        by (auto simp: geq)
      have "fst (snd (attempt f w g i)) = Map.empty" if "j \<le> i \<and> i < k" for i
      proof (cases "i = j")
        case True
        then show ?thesis by (simp add: a d1)
      next
        case False
        with that k(3) show ?thesis by simp
      qed
      with k have "j \<le> k \<and> int k < maxTries f
        \<and> (\<forall>i. j \<le> i \<and> i < k \<longrightarrow> fst (snd (attempt f w g i)) = Map.empty)
        \<and> attempt f w g k = (c', d, es1') \<and> es = (es1 @ es0) @ es1'"
        using es(1) by simp
      then show ?thesis by blast
    next
      case False
      have "es = es1 \<and> d = d1"
      proof (cases "c = Continue")
        case True
        with False have ne: "d1 \<noteq> Map.empty" by simp
        have "doCurl_loop f w (g\<lparr>dat := d1\<rparr>) (Suc j) = (None, d1, [])"
          using loop_stopped[of "g\<lparr>dat := d1\<rparr>" f w "Suc j"] ne by simp
        with "1.prems"(2) \<open>int j < maxTries f \<and> dat g = Map.empty\<close> a True
        show ?thesis by (subst (asm) doCurl_loop.simps) simp
      next
        case False
        with "1.prems"(2) \<open>int j < maxTries f \<and> dat g = Map.empty\<close> a
        show ?thesis by (subst (asm) doCurl_loop.simps) (cases c; simp)
      qed
      with a \<open>int j < maxTries f \<and> dat g = Map.empty\<close>
      have "j \<le> j \<and> int j < maxTries f
        \<and> (\<forall>i. j \<le> i \<and> i < j \<longrightarrow> fst (snd (attempt f w g i)) = Map.empty)
        \<and> attempt f w g j = (c, d, es1) \<and> es = [] @ es1" by auto
      then show ?thesis by blast
    qed
  qed
qed

lemma request_events_Request:
  "Request m u \<in> set (request_events f g i) \<Longrightarrow> u = urls g ! i"
  by (auto simp: request_events_def post_file_def header_line_def split: if_splits)

lemma request_events_WriteFile: "WriteFile p b \<notin> set (request_events f g i)"
  by (auto simp: request_events_def post_file_def header_line_def split: if_splits)

lemma attempt_Request:
  assumes "Request m u \<in> set (snd (snd (attempt f w g k)))"
  shows "u = urls g ! (k mod length (Args g))"
  using assms unfolding attempt_def Let_def json_Unmarshal_def
  by (auto simp: post_file_def sleep_check_def error_line_def
      dest: request_events_Request
      split: if_splits http_result.splits option.splits jdoc.splits)

lemma attempt_WriteFile:
  assumes "WriteFile p b \<in> set (snd (snd (attempt f w g k)))"
  shows "p = cacheFiles g ! (k mod length (Args g))"
  using assms unfolding attempt_def Let_def json_Unmarshal_def
  by (auto simp: post_file_def sleep_check_def error_line_def request_events_WriteFile
      split: if_splits http_result.splits option.splits jdoc.splits)

section \<open>Properties of the cache scan\<close>

lemma scan_length: "length (fst (cache_scan f w as i cfs)) = length cfs"
proof (induction as arbitrary: i cfs)
  case Nil
  show ?case by simp
next
  case (Cons a as)
  have "length (fst (cache_scan f w as (Suc i) (cfs[i := cacheFile f w a]))) = length cfs"
    using Cons.IH[of "Suc i" "cfs[i := cacheFile f w a]"] by simp
  then show ?case
    by (cases "cache_scan f w as (Suc i) (cfs[i := cacheFile f w a])")
       (simp add: Let_def split: option.splits)
qed

lemma shift_upt: "map h [Suc 0..<Suc n] = map (\<lambda>k. h (Suc k)) [0..<n]"
proof -
  have "[Suc 0..<Suc n] = map Suc [0..<n]" by (simp only: map_Suc_upt)
  then show ?thesis by (simp only: map_map o_def)
qed

lemma scan_step_miss:
  assumes "\<not> cache_hit f w i a"
  shows "cache_scan f w (a # as) i cfs =
     (case cache_scan f w as (Suc i) (cfs[i := cacheFile f w a]) of
        (c, d, es) \<Rightarrow> (c, d, miss_events f w i a @ es))"
proof (cases "os_Stat w (cacheFile f w a)")
  case None
  then show ?thesis
    by (simp add: Let_def miss_events_def cache_fresh_def split: prod.split)
next
  case (Some mtime)
  show ?thesis
  proof (cases "cache_fresh f w i a")
    case True
    with assms have "read_File w (cacheFile f w a) = None" by (simp add: cache_hit_def)
    with True Some show ?thesis
      by (simp add: Let_def miss_events_def cache_fresh_def split: prod.split)
  next
    case False
    with Some show ?thesis
      by (auto simp: Let_def miss_events_def cache_fresh_def split: prod.split)
  qed
qed

lemma scan_step_hit:
  assumes "cache_hit f w i a" and "read_File w (cacheFile f w a) = Some byt"
  shows "cache_scan f w (a # as) i cfs =
     (cfs[i := cacheFile f w a], snd (json_Unmarshal w byt Map.empty),
      [Stat (cacheFile f w a), ReadFile (cacheFile f w a)])"
  using assms
  by (cases "os_Stat w (cacheFile f w a)") (simp_all add: Let_def cache_hit_def cache_fresh_def)

text \<open>Without a hit the scan visits every target and fills \<open>cacheFiles\<close>.\<close>

lemma scan_no_hit:
  assumes "\<forall>k<length as. \<not> cache_hit f w (i + k) (as ! k)" and "i + length as = length cfs"
  shows "cache_scan f w as i cfs
           = (take i cfs @ map (cacheFile f w) as, Map.empty,
              concat (map (\<lambda>k. miss_events f w (i + k) (as ! k)) [0..<length as]))"
  using assms
proof (induction as arbitrary: i cfs)
  case Nil
  then show ?case by simp
next
  case (Cons a as)
  let ?p = "cacheFile f w a"
  from Cons.prems(1) have h0: "\<not> cache_hit f w i a" by fastforce
  from Cons.prems(1) have "\<forall>k<length as. \<not> cache_hit f w (Suc i + k) (as ! k)" by fastforce
  moreover from Cons.prems(2) have "Suc i + length as = length (cfs[i := ?p])" by simp
  ultimately have IH: "cache_scan f w as (Suc i) (cfs[i := ?p])
           = (take (Suc i) (cfs[i := ?p]) @ map (cacheFile f w) as, Map.empty,
              concat (map (\<lambda>k. miss_events f w (Suc i + k) (as ! k)) [0..<length as]))"
    by (rule Cons.IH)
  from Cons.prems(2) have i: "i < length cfs" by simp
  then have t: "take (Suc i) (cfs[i := ?p]) = take i cfs @ [?p]"
    by (simp add: take_Suc_conv_app_nth)
  have m: "concat (map (\<lambda>k. miss_events f w (i + k) ((a # as) ! k)) [0..<length (a # as)])
      = miss_events f w i a
          @ concat (map (\<lambda>k. miss_events f w (Suc i + k) (as ! k)) [0..<length as])"
    by (simp add: upt_conv_Cons shift_upt del: upt_Suc)
  show ?case
    unfolding m by (simp add: scan_step_miss[OF h0] IH t del: cache_scan.simps)
qed

text \<open>The scan ends at its first hit.\<close>

lemma scan_first_hit:
  assumes "i0 < length as" and "cache_hit f w (i + i0) (as ! i0)"
    and "\<forall>k<i0. \<not> cache_hit f w (i + k) (as ! k)"
    and "read_File w (cacheFile f w (as ! i0)) = Some byt"
  shows "\<exists>cfs'. cache_scan f w as i cfs
           = (cfs', snd (json_Unmarshal w byt Map.empty),
              concat (map (\<lambda>k. miss_events f w (i + k) (as ! k)) [0..<i0])
                @ [Stat (cacheFile f w (as ! i0)), ReadFile (cacheFile f w (as ! i0))])"
  using assms
proof (induction as arbitrary: i i0 cfs)
  case Nil
  then show ?case by simp
next
  case (Cons a as)
  let ?p = "cacheFile f w a"
  show ?case
  proof (cases i0)
    case 0
    with Cons.prems(2,4) show ?thesis
      by (simp add: scan_step_hit del: cache_scan.simps)
  next
    case (Suc n)
    with Cons.prems have n: "n < length as" and hit: "cache_hit f w (Suc i + n) (as ! n)"
      and rd: "read_File w (cacheFile f w (as ! n)) = Some byt"
      by simp_all
    from Cons.prems(3) Suc have h0: "\<not> cache_hit f w i a" by fastforce
    from Cons.prems(3) Suc have "\<forall>k<n. \<not> cache_hit f w (Suc i + k) (as ! k)" by fastforce
    from Cons.IH[OF n hit this rd, of "cfs[i := ?p]"]
    obtain cfs' where IH: "cache_scan f w as (Suc i) (cfs[i := ?p])
           = (cfs', snd (json_Unmarshal w byt Map.empty),
              concat (map (\<lambda>k. miss_events f w (Suc i + k) (as ! k)) [0..<n])
                @ [Stat (cacheFile f w (as ! n)), ReadFile (cacheFile f w (as ! n))])"
      by blast
    have m: "concat (map (\<lambda>k. miss_events f w (i + k) ((a # as) ! k)) [0..<Suc n])
      = miss_events f w i a
          @ concat (map (\<lambda>k. miss_events f w (Suc i + k) (as ! k)) [0..<n])"
      by (simp add: upt_conv_Cons shift_upt del: upt_Suc)
    show ?thesis
      unfolding Suc m by (simp add: scan_step_miss[OF h0] IH del: cache_scan.simps)
  qed
qed

lemma miss_events_Request: "filter is_Request (miss_events f w i a) = []"
  by (simp add: miss_events_def)

lemma miss_events_Stat: "length (filter is_Stat (miss_events f w i a)) = 1"
  by (simp add: miss_events_def)

lemma concat_miss_Request:
  "filter is_Request (concat (map (\<lambda>k. miss_events f w (i + k) (as ! k)) ks)) = []"
  by (induction ks) (simp_all add: miss_events_Request)

lemma concat_miss_Stat:
  "length (filter is_Stat (concat (map (\<lambda>k. miss_events f w (i + k) (as ! k)) ks))) = length ks"
  by (induction ks) (simp_all add: miss_events_Stat)

lemma net_miss_events:
  "net_events (concat (map (\<lambda>k. miss_events f w (i + k) (as ! k)) ks)) = []"
  by (induction ks) (simp_all add: miss_events_def net_events_def)

section \<open>From \<open>main\<close> to \<open>doCurl\<close>\<close>

lemma parse_urls_length: "parse_urls w as = Inr us \<Longrightarrow> length us = length as"
  by (induction as arbitrary: us) (auto split: sum.splits)

lemma main_started:
  assumes "startup_ok f w us"
  shows "main f w =
     (case cache_scan f w (tl (argv f)) 0 (replicate (length (tl (argv f))) []) of
        (cfs, d, es) \<Rightarrow> after es (doCurl f w (globals_of f us cfs d)))"
proof -
  from assms have 1: "\<not> (ca f \<noteq> [] \<and> \<not> ca_readable w (ca f))"
    and 2: "\<not> (cert f \<noteq> [] \<and> (if cert f \<noteq> [] \<and> key f = [] then cert f else key f) \<noteq> []
              \<and> \<not> keypair_ok w (cert f) (if cert f \<noteq> [] \<and> key f = [] then cert f else key f))"
    and 3: "\<not> length (argv f) < 2" and 4: "parse_urls w (tl (argv f)) = Inr us"
    and 5: "\<not> (docker f \<noteq> [] \<and> \<not> netns_ok w (docker f))"
    by (auto simp: startup_ok_def)
  show ?thesis
    unfolding main_def Let_def globals_of_def
    by (simp only: 1 2 3 4 5 if_False sum.case split: prod.split)
qed

lemma globals_well_formed:
  assumes "startup_ok f w us"
  shows "well_formed (globals_of f us (fst (cache_scan f w (tl (argv f)) i (replicate (length (tl (argv f))) []))) d)"
proof -
  from assms have "2 \<le> length (argv f)" "parse_urls w (tl (argv f)) = Inr us"
    by (simp_all add: startup_ok_def)
  then show ?thesis
    using parse_urls_length[of w "tl (argv f)" us]
    by (auto simp: well_formed_def globals_of_def scan_length)
qed

section \<open>Properties of the result loop\<close>

text \<open>When the iterator ends after finitely many values, the result loop ends.\<close>

lemma emit_values:
  assumes "\<forall>k<n. it (j + k) = Some (Value (v (j + k)))" and "it (j + n) = None"
    and "outputFile f = [] \<or> (\<forall>k<n. os_Create w (j + k) (outputFile f))"
  shows "emit f w it j = Some (0, concat (map (\<lambda>k. result_events f w (v k)) [j..<j + n]))"
  using assms
proof (induction n arbitrary: j)
  case 0
  then show ?case by (subst emit.simps) simp
next
  case (Suc n)
  from Suc.prems(1) have v: "it j = Some (Value (v j))" by fastforce
  from Suc.prems(1) have 1: "\<forall>k<n. it (Suc j + k) = Some (Value (v (Suc j + k)))" by fastforce
  from Suc.prems(2) have 2: "it (Suc j + n) = None" by simp
  from Suc.prems(3) have 3: "outputFile f = [] \<or> (\<forall>k<n. os_Create w (Suc j + k) (outputFile f))"
    by fastforce
  from Suc.prems(3) have c: "outputFile f \<noteq> [] \<longrightarrow> os_Create w j (outputFile f)" by fastforce
  have u: "[j..<j + Suc n] = j # [Suc j..<Suc j + n]"
    by (subst upt_rec) simp
  show ?case
    unfolding u
    by (subst emit.simps) (use c in \<open>simp add: v Suc.IH[OF 1 2 3] result_events_def\<close>)
qed

text \<open>The result loop makes no request and no cache call.\<close>

lemma result_events_output: "filter (\<lambda>e. is_Request e \<or> is_Sleep e \<or> is_WriteFile e \<or> is_ReadFile e \<or> is_Stat e)
    (result_events f w v) = []"
  by (simp add: result_events_def debug_value_def)

lemma emit_output_only:
  assumes "emit f w it k = Some r"
  shows "filter (\<lambda>e. is_Request e \<or> is_Sleep e \<or> is_WriteFile e \<or> is_ReadFile e \<or> is_Stat e) (snd r) = []"
proof (rule emit.raw_induct[where P = "\<lambda>f w it k r.
    filter (\<lambda>e. is_Request e \<or> is_Sleep e \<or> is_WriteFile e \<or> is_ReadFile e \<or> is_Stat e) (snd r) = []",
    OF _ assms])
  fix emit' :: "flags \<Rightarrow> 'a world \<Rightarrow> (nat \<Rightarrow> 'a item option) \<Rightarrow> nat \<Rightarrow> (nat \<times> event list) option"
    and f w it k r
  assume IH: "\<And>f w it k r. emit' f w it k = Some r \<Longrightarrow>
      filter (\<lambda>e. is_Request e \<or> is_Sleep e \<or> is_WriteFile e \<or> is_ReadFile e \<or> is_Stat e) (snd r) = []"
    and eq: "(case it k of
        None \<Rightarrow> Some (0, [])
      | Some (Value v) \<Rightarrow>
          if outputFile f \<noteq> [] then
            (if \<not> os_Create w k (outputFile f)
             then Some (1, debug_value f w v @ [Create (outputFile f)])
             else Option.bind (emit' f w it (Suc k))
                    (\<lambda>r. Some (fst r, debug_value f w v
                                  @ [Create (outputFile f), FileWrite (outputFile f) (render f w v)]
                                  @ snd r)))
          else Option.bind (emit' f w it (Suc k))
                 (\<lambda>r. Some (fst r, debug_value f w v @ [Stdout (render f w v)] @ snd r))
      | Some (QError msg) \<Rightarrow> Some (1, [])) = Some r"
  show "filter (\<lambda>e. is_Request e \<or> is_Sleep e \<or> is_WriteFile e \<or> is_ReadFile e \<or> is_Stat e) (snd r) = []"
  proof (cases "it k")
    case None
    with eq show ?thesis by auto
  next
    case (Some x)
    show ?thesis
    proof (cases x)
      case (QError msg)
      with Some eq show ?thesis by auto
    next
      case (Value v)
      with Some eq IH[of f w it "Suc k"] show ?thesis
        by (auto simp: debug_value_def split: if_splits Option.bind_splits)
    qed
  qed
qed

lemma file_content_append:
  "file_content p (xs @ ys) c = file_content p ys (file_content p xs c)"
  by (induction p xs c rule: file_content.induct) simp_all

lemma file_content_debug: "file_content p (debug_value f w v) c = c"
  by (simp add: debug_value_def)

lemma file_content_result:
  assumes "outputFile f \<noteq> []"
  shows "file_content (outputFile f) (result_events f w v) c = Some (render f w v)"
  using assms by (simp add: result_events_def file_content_append file_content_debug)

lemma file_content_results:
  assumes "outputFile f \<noteq> []"
  shows "file_content (outputFile f) (concat (map (\<lambda>k. result_events f w (v k)) [0..<Suc n])) c
           = Some (render f w (v n))"
  using assms by (simp add: file_content_append file_content_result)

lemma stdout_of_append: "stdout_of (xs @ ys) = stdout_of xs @ stdout_of ys"
  by (induction xs rule: stdout_of.induct) simp_all

lemma stdout_of_results:
  assumes "outputFile f = []"
  shows "stdout_of (concat (map (\<lambda>k. result_events f w (v k)) ks))
     = concat (map (\<lambda>k. (if debug f then [fmt_gosyntax w (v k) @ newline] else [])
                          @ [render f w (v k)]) ks)"
  using assms
  by (induction ks) (simp_all add: stdout_of_append result_events_def debug_value_def)

section \<open>Further properties of the loop and of \<open>main\<close>\<close>

lemma after_Nil: "after [] r = r"
  by (cases r) (simp_all add: after_def)

lemma after_after: "after es (after es' r) = after (es @ es') r"
  by (cases r) (simp_all add: after_def)

lemma after_Some: "after es (Some (c, es')) = Some (c, es @ es')"
  by (simp add: after_def)

lemma run_query_output_only:
  assumes "run_query f w g = Some r"
  shows "filter (\<lambda>e. is_Request e \<or> is_Sleep e \<or> is_WriteFile e \<or> is_ReadFile e \<or> is_Stat e) (snd r) = []"
proof (cases "gojq_Parse w (JQString g)")
  case True
  with assms have "emit f w (query_Run w (JQString g) (dat g)) 0 = Some r"
    by (simp add: run_query_def)
  then show ?thesis by (rule emit_output_only)
next
  case False
  with assms show ?thesis by (auto simp: run_query_def)
qed

text \<open>An accepted body ends the loop, after the cache write when caching is on.\<close>

lemma attempt_body_ok:
  assumes "well_formed g" and "builds f w g j" and "response f w g j = Body byt"
    and "json_decode w byt = Some doc"
  shows "attempt f w g j =
     (if \<not> useCache f
      then (Break, snd (json_Unmarshal w byt (dat g)), request_events f g (j mod length (Args g)))
      else (if \<not> write_File w (cacheFiles g ! (j mod length (Args g))) byt \<and> debug f
            then Abort 1 else Break,
            snd (json_Unmarshal w byt (dat g)),
            request_events f g (j mod length (Args g))
              @ [WriteFile (cacheFiles g ! (j mod length (Args g))) byt]))"
proof -
  have u: "fst (json_Unmarshal w byt (dat g)) = False"
    by (simp add: json_Unmarshal_def assms(4) split: jdoc.split)
  then show ?thesis
    by (cases "json_Unmarshal w byt (dat g)")
       (simp add: attempt_built[OF assms(1,2)] assms(3) Let_def)
qed

lemma attempt_built_request:
  assumes "well_formed g" and "builds f w g j"
  shows "\<exists>es. net_events (snd (snd (attempt f w g j)))
           = Request (httpMethod f) (urls g ! (j mod length (Args g))) # es"
proof (cases "response f w g j")
  case (Body byt)
  then show ?thesis
    by (cases "json_Unmarshal w byt (dat g)"; cases "fst (json_Unmarshal w byt (dat g))")
       (simp_all add: attempt_built[OF assms] Let_def net_simps)
qed (simp_all add: attempt_built[OF assms] Let_def net_simps)

lemma loop_events:
  "snd (snd (doCurl_loop f w g j)) =
     (if int j < maxTries f \<and> dat g = Map.empty then
        snd (snd (attempt f w g j))
          @ (if fst (attempt f w g j) = Continue
             then snd (snd (doCurl_loop f w (g\<lparr>dat := fst (snd (attempt f w g j))\<rparr>) (Suc j)))
             else [])
      else [])"
  by (subst doCurl_loop.simps)
     (auto split: prod.splits ctl.splits)

lemma loop_first_request:
  assumes "well_formed g" and "dat g = Map.empty" and "0 < maxTries f" and "builds f w g 0"
  shows "\<exists>es. net_events (snd (snd (doCurl_loop f w g 0)))
           = Request (httpMethod f) (urls g ! 0) # es"
proof -
  from attempt_built_request[OF assms(1,4)]
  obtain es where "net_events (snd (snd (attempt f w g 0))) = Request (httpMethod f) (urls g ! 0) # es"
    by auto
  then show ?thesis
    using assms(2,3) by (subst loop_events) (simp add: net_append)
qed

text \<open>A kind of call that no iteration makes is not made by the loop.\<close>

lemma loop_never:
  assumes "\<And>g j. filter P (snd (snd (attempt f w g j))) = []"
  shows "filter P (snd (snd (doCurl_loop f w g j))) = []"
  using assms
proof (induction f w g j rule: doCurl_loop.induct)
  case (1 f w g j)
  show ?case
  proof (cases "int j < maxTries f \<and> dat g = Map.empty")
    case False
    then show ?thesis by (subst loop_events) auto
  next
    case True
    obtain c d es where a: "attempt f w g j = (c, d, es)"
      by (cases "attempt f w g j") auto
    from "1.prems"[of g j] a have es: "filter P es = []" by simp
    show ?thesis
    proof (cases "c = Continue")
      case True
      with a have a': "(Continue, d, es) = attempt f w g j" by simp
      from "1.IH"[OF \<open>int j < maxTries f \<and> dat g = Map.empty\<close> a' refl refl "1.prems"]
      have "filter P (snd (snd (doCurl_loop f w (g\<lparr>dat := d\<rparr>) (Suc j)))) = []" .
      with es a True show ?thesis by (subst loop_events) simp
    next
      case False
      with es a show ?thesis by (subst loop_events) simp
    qed
  qed
qed

lemma cache_request_events: "filter is_cache (request_events f g i) = []"
proof -
  have "filter is_cache (map header_line hs) = []" for hs
    by (induction hs) (simp_all add: header_line_def is_cache_def)
  then show ?thesis by (simp add: request_events_def post_file_def is_cache_def)
qed

lemma cache_post_file: "filter is_cache (post_file f) = []"
  by (simp add: post_file_def is_cache_def)

lemma cache_sleep_check: "filter is_cache (sleep_check f g i) = []"
  by (simp add: sleep_check_def is_cache_def)

lemma cache_error_line: "is_cache (error_line msg) = False"
  by (simp add: error_line_def is_cache_def)

lemma attempt_no_cache_aux:
  assumes "attempt f w g j = (c, d, es)" and "\<not> useCache f"
  shows "filter is_cache es = []"
  using assms unfolding attempt_def Let_def json_Unmarshal_def
  by (auto simp: cache_request_events cache_post_file cache_sleep_check cache_error_line
      split: if_splits http_result.splits option.splits jdoc.splits)

lemma attempt_no_cache:
  assumes "\<not> useCache f"
  shows "filter is_cache (snd (snd (attempt f w g j))) = []"
  using attempt_no_cache_aux[where f = f and w = w and g = g and j = j, OF _ assms]
  by (cases "attempt f w g j") auto

lemma loop_no_cache:
  assumes "\<not> useCache f"
  shows "filter is_cache (snd (snd (doCurl_loop f w g j))) = []"
  by (rule loop_never) (rule attempt_no_cache[OF assms])

text \<open>With \<open>flush\<close> on or \<open>useCache\<close> off the scan reads nothing and fills \<open>cacheFiles\<close>.\<close>

lemma no_lookup_fresh: "flush f \<or> \<not> useCache f \<Longrightarrow> \<not> cache_fresh f w i a"
  by (auto simp: cache_fresh_def split: option.splits)

lemma concat_singletons: "concat (map (\<lambda>k. [h k]) ks) = map h ks"
  by (induction ks) simp_all

lemma map_index: "map (\<lambda>k. h (xs ! k)) [0..<length xs] = map h xs"
  by (rule nth_equalityI) simp_all

lemma scan_no_lookup:
  assumes "flush f \<or> \<not> useCache f"
  shows "cache_scan f w A 0 (replicate (length A) [])
           = (map (cacheFile f w) A, Map.empty, map (\<lambda>a. Stat (cacheFile f w a)) A)"
proof -
  have h: "\<forall>k<length A. \<not> cache_hit f w (0 + k) (A ! k)"
    by (simp add: cache_hit_def no_lookup_fresh[OF assms])
  have m: "miss_events f w i a = [Stat (cacheFile f w a)]" for i a
    by (simp add: miss_events_def no_lookup_fresh[OF assms])
  have "concat (map (\<lambda>k. [Stat (cacheFile f w (A ! k))]) [0..<length A])
      = map (\<lambda>a. Stat (cacheFile f w a)) A"
    by (simp only: concat_singletons map_index[of "\<lambda>a. Stat (cacheFile f w a)" A])
  then show ?thesis
    using scan_no_hit[OF h, of "replicate (length A) []"] by (simp add: m)
qed

text \<open>The calls of \<open>doCurl\<close> are those of the loop, then calls that only produce output.\<close>

lemma doCurl_events:
  assumes "doCurl f w g = Some r"
  shows "\<exists>q. snd r = snd (snd (doCurl_loop f w g 0)) @ q
           \<and> filter (\<lambda>e. is_Request e \<or> is_Sleep e \<or> is_WriteFile e \<or> is_ReadFile e \<or> is_Stat e) q = []"
proof -
  obtain x d es where l: "doCurl_loop f w g 0 = (x, d, es)"
    by (cases "doCurl_loop f w g 0") auto
  show ?thesis
  proof (cases x)
    case (Some n)
    with assms l have "snd r = es @ []" by (auto simp: doCurl_def)
    with l show ?thesis by auto
  next
    case None
    with assms l obtain q where q: "run_query f w (g\<lparr>dat := d\<rparr>) = Some q"
      and sr: "snd r = es @ snd q"
      by (auto simp: doCurl_def after_def)
    from run_query_output_only[OF q] sr l show ?thesis by auto
  qed
qed

lemma read_request_events: "filter is_ReadFile (request_events f g i) = []"
proof -
  have "filter is_ReadFile (map header_line hs) = []" for hs
    by (induction hs) (simp_all add: header_line_def)
  then show ?thesis by (simp add: request_events_def post_file_def)
qed

lemma read_post_file: "filter is_ReadFile (post_file f) = []"
  by (simp add: post_file_def)

lemma read_sleep_check: "filter is_ReadFile (sleep_check f g i) = []"
  by (simp add: sleep_check_def)

lemma read_error_line: "is_ReadFile (error_line msg) = False"
  by (simp add: error_line_def)

lemma attempt_no_read_aux:
  assumes "attempt f w g j = (c, d, es)"
  shows "filter is_ReadFile es = []"
  using assms unfolding attempt_def Let_def json_Unmarshal_def
  by (auto simp: read_request_events read_post_file read_sleep_check read_error_line
      split: if_splits http_result.splits option.splits jdoc.splits)

lemma loop_no_read: "filter is_ReadFile (snd (snd (doCurl_loop f w g j))) = []"
proof (rule loop_never)
  fix g :: "'a globals" and j
  show "filter is_ReadFile (snd (snd (attempt f w g j))) = []"
    using attempt_no_read_aux[of f w g j] by (cases "attempt f w g j") auto
qed

text \<open>The loop never asks for a cache file: no \<open>os.Stat\<close> and no \<open>ReadFile\<close>.\<close>

lemma lookup_request_events:
  "filter (\<lambda>e. is_Stat e \<or> is_ReadFile e) (request_events f g i) = []"
proof -
  have "filter (\<lambda>e. is_Stat e \<or> is_ReadFile e) (map header_line hs) = []" for hs
    by (induction hs) (simp_all add: header_line_def)
  then show ?thesis by (simp add: request_events_def post_file_def)
qed

lemma lookup_post_file: "filter (\<lambda>e. is_Stat e \<or> is_ReadFile e) (post_file f) = []"
  by (simp add: post_file_def)

lemma lookup_sleep_check: "filter (\<lambda>e. is_Stat e \<or> is_ReadFile e) (sleep_check f g i) = []"
  by (simp add: sleep_check_def)

lemma lookup_error_line: "is_Stat (error_line msg) = False"
  by (simp add: error_line_def)

lemma attempt_no_lookup_aux:
  assumes "attempt f w g j = (c, d, es)"
  shows "filter (\<lambda>e. is_Stat e \<or> is_ReadFile e) es = []"
  using assms unfolding attempt_def Let_def json_Unmarshal_def
  by (auto simp: lookup_request_events lookup_post_file lookup_sleep_check lookup_error_line
      read_error_line
      split: if_splits http_result.splits option.splits jdoc.splits)

lemma loop_no_lookup:
  "filter (\<lambda>e. is_Stat e \<or> is_ReadFile e) (snd (snd (doCurl_loop f w g j))) = []"
proof (rule loop_never)
  fix g :: "'a globals" and j
  show "filter (\<lambda>e. is_Stat e \<or> is_ReadFile e) (snd (snd (attempt f w g j))) = []"
    using attempt_no_lookup_aux[of f w g j] by (cases "attempt f w g j") auto
qed

text \<open>
  A target whose cache file exists, was not written in the future, is younger than
  \<open>maxAge\<close> and can be read is a hit when caching is on and \<open>flush\<close> is off; a target
  without a cache file, or with one that cannot be read, is not.
\<close>

lemma fresh_readable_first_hit:
  assumes "useCache f" and "\<not> flush f" and "i0 < length A"
    and "\<forall>k<i0. os_Stat w (cacheFile f w (A ! k)) = None \<or> read_File w (cacheFile f w (A ! k)) = None"
    and "os_Stat w (cacheFile f w (A ! i0)) = Some mtime"
    and "mtime \<le> time_Now w i0" and "time_Now w i0 < mtime + maxAge f"
    and "read_File w (cacheFile f w (A ! i0)) = Some byt"
  shows "first_hit f w A i0"
proof -
  have "cache_hit f w i0 (A ! i0)"
    using assms(1,2,5-8) by (simp add: cache_hit_def cache_fresh_def)
  moreover have "\<not> cache_hit f w k (A ! k)" if "k < i0" for k
    using assms(4) that by (auto simp: cache_hit_def cache_fresh_def split: option.splits)
  ultimately show ?thesis using assms(3) by (simp add: first_hit_def)
qed

section \<open>C1: the age of a cache entry\<close>

text \<open>
  C1. A cache entry is to be used only while the current time is at most its
  modification time plus \<open>maxAge\<close>; an older entry is to count as missing. The test of
  line 158 does not ensure this: it compares \<open>time.Now() + maxAge\<close> with the
  modification time, not the modification time plus \<open>maxAge\<close> with \<open>time.Now()\<close>. In
  the run below the only target's cache file was written at time 0, the clock shows
  100 and \<open>maxAge\<close> is 10, so the entry is 90 too old; the test passes all the same,
  the scan uses the entry, and the run ends without any request.
\<close>

theorem stale_cache_entry_used:
  \<open>os_Stat (world0\<lparr>os_Stat := (\<lambda>p. Some 0), read_File := (\<lambda>p. Some ''{"x":1}'')\<rparr>)
       ''/tmp/jqurl_http://a/1000'' = Some 0
   \<and> cache_fresh (flags0\<lparr>useCache := True, maxAge := 10, argv := [''.x'', ''http://a/'']\<rparr>)
         (world0\<lparr>os_Stat := (\<lambda>p. Some 0), read_File := (\<lambda>p. Some ''{"x":1}'')\<rparr>) 0 ''http://a/''
   \<and> \<not> time_Now (world0\<lparr>os_Stat := (\<lambda>p. Some 0), read_File := (\<lambda>p. Some ''{"x":1}'')\<rparr>) 0
         \<le> 0 + maxAge (flags0\<lparr>useCache := True, maxAge := 10, argv := [''.x'', ''http://a/'']\<rparr>)
   \<and> main (flags0\<lparr>useCache := True, maxAge := 10, argv := [''.x'', ''http://a/'']\<rparr>)
          (world0\<lparr>os_Stat := (\<lambda>p. Some 0), read_File := (\<lambda>p. Some ''{"x":1}'')\<rparr>)
       = Some (0, [Stat ''/tmp/jqurl_http://a/1000'', ReadFile ''/tmp/jqurl_http://a/1000'',
                   Stdout (''|'' @ newline)])\<close>
  by (simp add: Let_def cache_fresh_def main_def cacheFile_def json_Unmarshal_def doCurl_def
      doCurl_loop.simps run_query_def emit.simps after_def render_def debug_value_def
      flags0_def world0_def)

section \<open>C2: retry pacing\<close>




section \<open>C3: round robin\<close>

text \<open>
  C3. For a target list of length \<open>N \<ge> 1\<close>, whatever the answers of the network: the
  requests the loop sends are, in order, the requests to \<open>urls[k mod N]\<close> for
  \<open>k = 0, \<dots>, n - 1\<close>, with \<open>n\<close> at most \<open>maxTries\<close>: the \<open>k\<close>-th request goes to target
  \<open>k mod N\<close>, and no target leaves the rotation. The iteration with counter \<open>k\<close> sends
  its request to \<open>urls[k mod N]\<close> only, and writes to \<open>cacheFiles[k mod N]\<close> only.
\<close>

theorem round_robin_targets:
  assumes "well_formed g"
  shows "(\<exists>n. int n \<le> max 0 (maxTries f) \<and>
            filter is_Request (snd (snd (doCurl_loop f w g 0)))
              = map (\<lambda>k. Request (httpMethod f) (urls g ! (k mod length (Args g)))) [0..<n])
       \<and> (\<forall>k m u. Request m u \<in> set (snd (snd (attempt f w g k)))
             \<longrightarrow> u = urls g ! (k mod length (Args g)))
       \<and> (\<forall>k p b. WriteFile p b \<in> set (snd (snd (attempt f w g k)))
             \<longrightarrow> p = cacheFiles g ! (k mod length (Args g)))"
proof -
  obtain r d es where l: "doCurl_loop f w g 0 = (r, d, es)"
    by (cases "doCurl_loop f w g 0") auto
  from loop_requests[OF assms l] l
  have "\<exists>n. int n \<le> max 0 (maxTries f) \<and>
            filter is_Request (snd (snd (doCurl_loop f w g 0)))
              = map (\<lambda>k. Request (httpMethod f) (urls g ! (k mod length (Args g)))) [0..<n]"
    by simp
  then show ?thesis
    using attempt_Request[of _ _ f w g] attempt_WriteFile[of _ _ f w g] by blast
qed

theorem round_robin_targets_witness:
  "(\<exists>n. int n \<le> 3 \<and>
      filter is_Request (snd (snd (doCurl_loop (flags0\<lparr>maxTries := 3\<rparr>) world0 globals0 0)))
        = map (\<lambda>k. Request ''GET'' ([''http://a/'', ''http://b/''] ! (k mod 2))) [0..<n])
   \<and> doCurl_loop (flags0\<lparr>maxTries := 3\<rparr>) world0 globals0 0
        = (None, Map.empty,
           [Request ''GET'' ''http://a/'', Request ''GET'' ''http://b/'', Sleep 7000000000,
            Request ''GET'' ''http://a/''])"
proof -
  have a: "well_formed globals0" by (simp add: well_formed_def globals0_def)
  have "doCurl_loop (flags0\<lparr>maxTries := 3\<rparr>) world0 globals0 0
        = (None, Map.empty,
           [Request ''GET'' ''http://a/'', Request ''GET'' ''http://b/'', Sleep 7000000000,
            Request ''GET'' ''http://a/''])"
    by (simp add: doCurl_loop.simps attempt_def request_events_def post_file_def sleep_check_def
        flags0_def world0_def globals0_def)
  moreover from round_robin_targets[OF a, of "flags0\<lparr>maxTries := 3\<rparr>" world0, THEN conjunct1]
  have "\<exists>n. int n \<le> 3 \<and>
      filter is_Request (snd (snd (doCurl_loop (flags0\<lparr>maxTries := 3\<rparr>) world0 globals0 0)))
        = map (\<lambda>k. Request ''GET'' ([''http://a/'', ''http://b/''] ! (k mod 2))) [0..<n]"
    by (simp add: flags0_def globals0_def numeral_2_eq_2)
  ultimately show ?thesis by blast
qed

section \<open>C4: a cache hit that yields a document ends the fetching\<close>

text \<open>
  C4, as the code has it. Let \<open>main\<close> reach the cache scan with caching on and \<open>flush\<close>
  off, and let target \<open>i0\<close> (target 0 or a later one) be the first that has a readable
  cache file, the targets before it having no cache file or an unreadable one. Let
  that file be fresh: not written in the future, and younger than \<open>maxAge\<close>. If its
  content decodes to a JSON object with at least one key, that object is the document
  the query runs on, and the run is the scan followed by the query: no request is
  sent, in the calls before the query and in the whole run.
\<close>

theorem cache_hit_short_circuit:
  fixes w :: "'v world"
  assumes start: "startup_ok f w us" and "useCache f" and "\<not> flush f"
    and "i0 < length (tl (argv f))"
    and "\<forall>k<i0. os_Stat w (cacheFile f w (tl (argv f) ! k)) = None
               \<or> read_File w (cacheFile f w (tl (argv f) ! k)) = None"
    and "os_Stat w (cacheFile f w (tl (argv f) ! i0)) = Some mtime"
    and "mtime \<le> time_Now w i0" and "time_Now w i0 < mtime + maxAge f"
    and rd: "read_File w (cacheFile f w (tl (argv f) ! i0)) = Some byt"
    and dc: "json_decode w byt = Some (JObject m)" and ne: "m \<noteq> Map.empty"
  shows "\<exists>cfs.
     main f w =
       after (concat (map (\<lambda>k. miss_events f w k (tl (argv f) ! k)) [0..<i0])
                @ [Stat (cacheFile f w (tl (argv f) ! i0)), ReadFile (cacheFile f w (tl (argv f) ! i0))])
         (run_query f w (globals_of f us cfs m))
     \<and> filter is_Request
          (concat (map (\<lambda>k. miss_events f w k (tl (argv f) ! k)) [0..<i0])
             @ [Stat (cacheFile f w (tl (argv f) ! i0)), ReadFile (cacheFile f w (tl (argv f) ! i0))])
         = []
     \<and> (\<forall>r. main f w = Some r \<longrightarrow> filter is_Request (snd r) = [])"
proof -
  let ?A = "tl (argv f)"
  let ?p = "cacheFile f w (?A ! i0)"
  let ?es = "concat (map (\<lambda>k. miss_events f w k (?A ! k)) [0..<i0]) @ [Stat ?p, ReadFile ?p]"
  have fh: "first_hit f w (tl (argv f)) i0"
    by (rule fresh_readable_first_hit[OF assms(2-9)])
  from fh have i0: "i0 < length ?A" and hit: "cache_hit f w (0 + i0) (?A ! i0)"
    and miss: "\<forall>k<i0. \<not> cache_hit f w (0 + k) (?A ! k)"
    by (simp_all add: first_hit_def)
  have d: "snd (json_Unmarshal w byt Map.empty) = m"
    by (simp add: json_Unmarshal_def dc)
  from scan_first_hit[OF i0 hit miss rd, of "replicate (length ?A) []"]
  obtain cfs where sc: "cache_scan f w ?A 0 (replicate (length ?A) []) = (cfs, m, ?es)"
    unfolding d by auto
  let ?g = "globals_of f us cfs m"
  have dg: "dat ?g = m" by (simp add: globals_of_def)
  have geq: "?g\<lparr>dat := m\<rparr> = ?g" by (simp add: globals_of_def)
  have "doCurl_loop f w ?g 0 = (None, m, [])"
    using loop_stopped[of ?g f w 0] ne by (simp add: dg)
  then have "doCurl f w ?g = run_query f w ?g"
    by (simp add: doCurl_def after_Nil geq)
  then have m: "main f w = after ?es (run_query f w ?g)"
    by (simp only: main_started[OF start] sc prod.case)
  have rq: "filter is_Request ?es = []"
    using concat_miss_Request[of f w 0 ?A "[0..<i0]"] by simp
  have all: "filter is_Request (snd r) = []" if r: "main f w = Some r" for r
  proof -
    from r m obtain q where q: "run_query f w ?g = Some q" and sr: "snd r = ?es @ snd q"
      by (auto simp: after_def)
    from run_query_output_only[OF q] have "filter is_Request (snd q) = []"
      by (auto simp: filter_empty_conv)
    with rq sr show ?thesis by simp
  qed
  show ?thesis
  proof (intro exI[of _ cfs] conjI allI impI)
    show "main f w = after ?es (run_query f w (globals_of f us cfs m))" by (rule m)
    show "filter is_Request ?es = []" by (rule rq)
    show "filter is_Request (snd r) = []" if "main f w = Some r" for r
      using that by (rule all)
  qed
qed

theorem cache_hit_short_circuit_witness:
  \<open>main (flags0\<lparr>useCache := True\<rparr>)
        (world0\<lparr>os_Stat := (\<lambda>p. if p = ''/tmp/jqurl_http://b/1000'' then Some 90 else None),
                read_File := (\<lambda>p. Some ''{"x":1}'')\<rparr>)
     = Some (0, [Stat ''/tmp/jqurl_http://a/1000'', Stat ''/tmp/jqurl_http://b/1000'',
                 ReadFile ''/tmp/jqurl_http://b/1000'', Stdout (''|'' @ newline)])
   \<and> filter is_Request
        (snd (0::nat, [Stat ''/tmp/jqurl_http://a/1000'', Stat ''/tmp/jqurl_http://b/1000'',
                  ReadFile ''/tmp/jqurl_http://b/1000'', Stdout (''|'' @ newline)])) = []\<close>
proof -
  let ?f = "flags0\<lparr>useCache := True\<rparr>"
  let ?w = \<open>world0\<lparr>os_Stat := (\<lambda>p. if p = ''/tmp/jqurl_http://b/1000'' then Some 90 else None),
                read_File := (\<lambda>p. Some ''{"x":1}'')\<rparr>\<close>
  have s: "startup_ok ?f ?w [''http://a/'', ''http://b/'']"
    by (simp add: startup_ok_def flags0_def world0_def)
  have u: "useCache ?f" and nf: "\<not> flush ?f" and i: "1 < length (tl (argv ?f))"
    by (simp_all add: flags0_def)
  have e: "\<forall>k<1. os_Stat ?w (cacheFile ?f ?w (tl (argv ?f) ! k)) = None
               \<or> read_File ?w (cacheFile ?f ?w (tl (argv ?f) ! k)) = None"
    by (simp add: cacheFile_def flags0_def world0_def)
  have t: "os_Stat ?w (cacheFile ?f ?w (tl (argv ?f) ! 1)) = Some 90"
    "90 \<le> time_Now ?w 1" "time_Now ?w 1 < 90 + maxAge ?f"
    by (simp_all add: cacheFile_def flags0_def world0_def)
  have r: \<open>read_File ?w (cacheFile ?f ?w (tl (argv ?f) ! 1)) = Some ''{"x":1}''\<close>
    by (simp add: world0_def)
  have d: \<open>json_decode ?w ''{"x":1}'' = Some (JObject [''x'' \<mapsto> 1])\<close>
    by (simp add: world0_def)
  have n: "[''x'' \<mapsto> 1::nat] \<noteq> Map.empty" by simp
  have m: "main ?f ?w
     = Some (0, [Stat ''/tmp/jqurl_http://a/1000'', Stat ''/tmp/jqurl_http://b/1000'',
                 ReadFile ''/tmp/jqurl_http://b/1000'', Stdout (''|'' @ newline)])"
    by (simp add: Let_def main_def cacheFile_def json_Unmarshal_def doCurl_def doCurl_loop.simps
        run_query_def emit.simps after_def render_def debug_value_def flags0_def world0_def)
  from cache_hit_short_circuit[OF s u nf i e t r d n] m show ?thesis by blast
qed

text \<open>
  A fresh entry for target 0 does not by itself end the fetching. Here the only
  target's cache file is fresh (written at 90, read at 100, \<open>maxAge\<close> four hours) and
  readable, caching is on and \<open>flush\<close> is off, but the file holds the empty object
  \<open>{}\<close>: \<open>dat\<close> stays empty, so the loop runs and sends a request.
\<close>

theorem cache_hit_short_circuit_counterexample:
  \<open>cache_fresh (flags0\<lparr>useCache := True, argv := [''.x'', ''http://a/'']\<rparr>)
       (world0\<lparr>os_Stat := (\<lambda>p. Some 90), read_File := (\<lambda>p. Some ''{}''),
               client_Do := (\<lambda>j m u. Body ''{"x":1}'')\<rparr>) 0 ''http://a/''
   \<and> time_Now (world0\<lparr>os_Stat := (\<lambda>p. Some 90), read_File := (\<lambda>p. Some ''{}''),
               client_Do := (\<lambda>j m u. Body ''{"x":1}'')\<rparr>) 0
        \<le> 90 + maxAge (flags0\<lparr>useCache := True, argv := [''.x'', ''http://a/'']\<rparr>)
   \<and> main (flags0\<lparr>useCache := True, argv := [''.x'', ''http://a/'']\<rparr>)
          (world0\<lparr>os_Stat := (\<lambda>p. Some 90), read_File := (\<lambda>p. Some ''{}''),
                  client_Do := (\<lambda>j m u. Body ''{"x":1}'')\<rparr>)
       = Some (0, [Stat ''/tmp/jqurl_http://a/1000'', ReadFile ''/tmp/jqurl_http://a/1000'',
                   Request ''GET'' ''http://a/'',
                   WriteFile ''/tmp/jqurl_http://a/1000'' ''{"x":1}'',
                   Stdout (''|'' @ newline)])\<close>
  by (simp add: Let_def cache_fresh_def main_def cacheFile_def json_Unmarshal_def doCurl_def
      doCurl_loop.simps attempt_def request_events_def post_file_def
      run_query_def emit.simps after_def render_def debug_value_def flags0_def world0_def)

section \<open>C5: force refresh, and caching switched off\<close>

text \<open>
  C5. Let \<open>main\<close> reach the cache scan, with \<open>flush\<close> on or \<open>useCache\<close> off. Whatever
  cache files exist, the scan only calls \<open>os.Stat\<close> on each target's cache file: it reads
  none, \<open>dat\<close> stays empty and \<open>doCurl\<close> starts with every \<open>cacheFiles[i]\<close> set to the
  target's cache file. So a request is still sent: when \<open>maxTries\<close> is positive and the
  first request can be built, the first request of the loop goes to target 0. With
  \<open>useCache\<close> on (and \<open>flush\<close> on), the first attempt whose body is accepted is followed
  by the write of that body to its target's cache file. No run reads a cache file.
  With \<open>useCache\<close> off, the loop makes no call on a cache file, and no run reads or
  writes one.
\<close>

theorem force_refresh:
  fixes w :: "'v world"
  assumes "startup_ok f w us" and "flush f \<or> \<not> useCache f"
  shows "main f w = after (map (\<lambda>a. Stat (cacheFile f w a)) (tl (argv f)))
                      (doCurl f w (globals_of f us (map (cacheFile f w) (tl (argv f))) Map.empty))
       \<and> (0 < maxTries f \<and> builds f w (globals_of f us (map (cacheFile f w) (tl (argv f))) Map.empty) 0
            \<longrightarrow> (\<exists>es. net_events (snd (snd (doCurl_loop f w
                        (globals_of f us (map (cacheFile f w) (tl (argv f))) Map.empty) 0)))
                      = Request (httpMethod f) (us ! 0) # es))
       \<and> (useCache f \<longrightarrow>
            (\<forall>j byt doc. int j < maxTries f
                \<and> (\<forall>k<j. attempt_fails f w (globals_of f us (map (cacheFile f w) (tl (argv f))) Map.empty) k)
                \<and> builds f w (globals_of f us (map (cacheFile f w) (tl (argv f))) Map.empty) j
                \<and> response f w (globals_of f us (map (cacheFile f w) (tl (argv f))) Map.empty) j = Body byt
                \<and> json_decode w byt = Some doc
              \<longrightarrow> (\<exists>es. snd (snd (doCurl_loop f w
                          (globals_of f us (map (cacheFile f w) (tl (argv f))) Map.empty) 0))
                        = es @ [WriteFile (cacheFile f w (tl (argv f) ! (j mod length (tl (argv f))))) byt])))
       \<and> (\<forall>r. main f w = Some r \<longrightarrow> filter is_ReadFile (snd r) = [])
       \<and> (\<not> useCache f \<longrightarrow>
            filter is_cache (snd (snd (doCurl_loop f w
                (globals_of f us (map (cacheFile f w) (tl (argv f))) Map.empty) 0))) = []
            \<and> (\<forall>r. main f w = Some r \<longrightarrow>
                  filter (\<lambda>e. is_ReadFile e \<or> is_WriteFile e) (snd r) = []))"
proof -
  let ?A = "tl (argv f)"
  let ?g = "globals_of f us (map (cacheFile f w) ?A) (Map.empty :: string \<rightharpoonup> 'v)"
  let ?st = "map (\<lambda>a. Stat (cacheFile f w a)) ?A"
  have m: "main f w = after ?st (doCurl f w ?g)"
    by (simp only: main_started[OF assms(1)] scan_no_lookup[OF assms(2)] prod.case)
  have wf: "well_formed ?g"
    using globals_well_formed[OF assms(1), of 0 Map.empty] scan_no_lookup[OF assms(2), of w ?A]
    by simp
  have e: "dat ?g = Map.empty" by (simp add: globals_of_def)
  have N: "0 < length ?A"
    using wf by (simp add: well_formed_def globals_of_def del: length_tl)
  have 2: "\<exists>es. net_events (snd (snd (doCurl_loop f w ?g 0))) = Request (httpMethod f) (us ! 0) # es"
    if h: "0 < maxTries f \<and> builds f w ?g 0"
  proof -
    from h have a: "0 < maxTries f" and b: "builds f w ?g 0" by simp_all
    have u: "urls ?g = us" by (simp add: globals_of_def)
    from loop_first_request[OF wf e a b] show ?thesis unfolding u .
  qed
  have 3: "\<exists>es. snd (snd (doCurl_loop f w ?g 0))
             = es @ [WriteFile (cacheFile f w (?A ! (j mod length ?A))) byt]"
    if u: "useCache f" and h: "int j < maxTries f \<and> (\<forall>k<j. attempt_fails f w ?g k) \<and> builds f w ?g j
        \<and> response f w ?g j = Body byt \<and> json_decode w byt = Some doc" for j byt doc
  proof -
    from h have le: "int j \<le> maxTries f" and fl: "\<forall>i. 0 \<le> i \<and> i < j \<longrightarrow> attempt_fails f w ?g i"
      by simp_all
    from loop_skip_failures[where j = 0 and k = j, OF wf e le fl]
    obtain es0 where s: "doCurl_loop f w ?g 0
        = (case doCurl_loop f w ?g j of (r, d, es') \<Rightarrow> (r, d, es0 @ es'))" by auto
    have i: "j mod length ?A < length ?A" using N by simp
    from h have b: "builds f w ?g j" and rs: "response f w ?g j = Body byt"
      and dc: "json_decode w byt = Some doc" by simp_all
    have A: "Args ?g = ?A" and C: "cacheFiles ?g = map (cacheFile f w) ?A"
      by (simp_all add: globals_of_def)
    have cf: "cacheFiles ?g ! (j mod length ?A) = cacheFile f w (?A ! (j mod length ?A))"
      unfolding C using i by (rule nth_map)
    have a: "snd (snd (attempt f w ?g j))
        = request_events f ?g (j mod length ?A) @ [WriteFile (cacheFile f w (?A ! (j mod length ?A))) byt]"
      "fst (attempt f w ?g j) \<noteq> Continue"
      by (simp_all add: attempt_body_ok[OF wf b rs dc] u A cf del: length_tl)
    have "snd (snd (doCurl_loop f w ?g j))
        = request_events f ?g (j mod length ?A) @ [WriteFile (cacheFile f w (?A ! (j mod length ?A))) byt]"
      using h e a by (subst loop_events) simp
    then have "snd (snd (doCurl_loop f w ?g 0)) = (es0 @ request_events f ?g (j mod length ?A))
        @ [WriteFile (cacheFile f w (?A ! (j mod length ?A))) byt]"
      by (cases "doCurl_loop f w ?g j") (simp add: s)
    then show ?thesis by blast
  qed
  have 4: "filter is_cache (snd (snd (doCurl_loop f w ?g 0))) = []" if "\<not> useCache f"
    by (rule loop_no_cache[OF that])
  have st: "filter (\<lambda>e. is_ReadFile e \<or> is_WriteFile e) ?st = []"
    by (induction ?A) simp_all
  have sp: "\<exists>q. snd r = ?st @ snd (snd (doCurl_loop f w ?g 0)) @ q
      \<and> filter (\<lambda>e. is_Request e \<or> is_Sleep e \<or> is_WriteFile e \<or> is_ReadFile e \<or> is_Stat e) q = []"
    if r: "main f w = Some r" for r
  proof -
    from r m obtain x where x: "doCurl f w ?g = Some x" and sr: "snd r = ?st @ snd x"
      by (auto simp: after_def)
    from doCurl_events[OF x] sr show ?thesis by auto
  qed
  have 5: "filter is_ReadFile (snd r) = []" if r: "main f w = Some r" for r
  proof -
    from sp[OF r] obtain q where sr: "snd r = ?st @ snd (snd (doCurl_loop f w ?g 0)) @ q"
      and q: "filter (\<lambda>e. is_Request e \<or> is_Sleep e \<or> is_WriteFile e \<or> is_ReadFile e \<or> is_Stat e) q = []"
      by auto
    from q have "filter is_ReadFile q = []" by (auto simp: filter_empty_conv)
    moreover from st have "filter is_ReadFile ?st = []" by (auto simp: filter_empty_conv)
    ultimately show ?thesis by (simp add: sr loop_no_read)
  qed
  have 6: "filter (\<lambda>e. is_ReadFile e \<or> is_WriteFile e) (snd r) = []"
    if u: "\<not> useCache f" and r: "main f w = Some r" for r
  proof -
    from sp[OF r] obtain q where sr: "snd r = ?st @ snd (snd (doCurl_loop f w ?g 0)) @ q"
      and q: "filter (\<lambda>e. is_Request e \<or> is_Sleep e \<or> is_WriteFile e \<or> is_ReadFile e \<or> is_Stat e) q = []"
      by auto
    from q have "filter (\<lambda>e. is_ReadFile e \<or> is_WriteFile e) q = []"
      by (auto simp: filter_empty_conv)
    moreover from 4[OF u]
    have "filter (\<lambda>e. is_ReadFile e \<or> is_WriteFile e) (snd (snd (doCurl_loop f w ?g 0))) = []"
      by (auto simp: is_cache_def filter_empty_conv)
    ultimately show ?thesis using st by (simp add: sr)
  qed
  from m 2 3 4 5 6 show ?thesis by blast
qed

theorem force_refresh_witness:
  \<open>main (flags0\<lparr>flush := True, useCache := True\<rparr>)
        (world0\<lparr>os_Stat := (\<lambda>p. Some 90), read_File := (\<lambda>p. Some ''{}''),
                client_Do := (\<lambda>j m u. Body ''{"x":1}'')\<rparr>)
     = Some (0, [Stat ''/tmp/jqurl_http://a/1000'', Stat ''/tmp/jqurl_http://b/1000'',
                 Request ''GET'' ''http://a/'',
                 WriteFile ''/tmp/jqurl_http://a/1000'' ''{"x":1}'', Stdout (''|'' @ newline)])
   \<and> (\<exists>es. net_events (snd (snd (doCurl_loop (flags0\<lparr>flush := True, useCache := True\<rparr>)
          (world0\<lparr>os_Stat := (\<lambda>p. Some 90), read_File := (\<lambda>p. Some ''{}''),
                  client_Do := (\<lambda>j m u. Body ''{"x":1}'')\<rparr>)
          (globals_of (flags0\<lparr>flush := True, useCache := True\<rparr>) [''http://a/'', ''http://b/'']
             [''/tmp/jqurl_http://a/1000'', ''/tmp/jqurl_http://b/1000''] Map.empty) 0)))
        = Request ''GET'' ''http://a/'' # es)
   \<and> (\<exists>es. snd (snd (doCurl_loop (flags0\<lparr>flush := True, useCache := True\<rparr>)
          (world0\<lparr>os_Stat := (\<lambda>p. Some 90), read_File := (\<lambda>p. Some ''{}''),
                  client_Do := (\<lambda>j m u. Body ''{"x":1}'')\<rparr>)
          (globals_of (flags0\<lparr>flush := True, useCache := True\<rparr>) [''http://a/'', ''http://b/'']
             [''/tmp/jqurl_http://a/1000'', ''/tmp/jqurl_http://b/1000''] Map.empty) 0))
        = es @ [WriteFile ''/tmp/jqurl_http://a/1000'' ''{"x":1}''])\<close>
proof -
  let ?f = "flags0\<lparr>flush := True, useCache := True\<rparr>"
  let ?w = \<open>world0\<lparr>os_Stat := (\<lambda>p. Some 90), read_File := (\<lambda>p. Some ''{}''),
                client_Do := (\<lambda>j m u. Body ''{"x":1}'')\<rparr>\<close>
  let ?us = "[''http://a/'', ''http://b/'']"
  let ?g = "globals_of ?f ?us (map (cacheFile ?f ?w) (tl (argv ?f))) (Map.empty :: string \<rightharpoonup> nat)"
  have s: "startup_ok ?f ?w ?us"
    by (simp add: startup_ok_def flags0_def world0_def)
  have fl: "flush ?f \<or> \<not> useCache ?f" by simp
  have g: "?g = globals_of ?f ?us [''/tmp/jqurl_http://a/1000'', ''/tmp/jqurl_http://b/1000''] Map.empty"
    by (simp add: cacheFile_def flags0_def world0_def)
  have b: "builds ?f ?w ?g 0"
    by (simp add: builds_def post_file_def flags0_def world0_def)
  have mt: "0 < maxTries ?f" by (simp add: flags0_def)
  have 2: "\<exists>es. net_events (snd (snd (doCurl_loop ?f ?w ?g 0))) = Request ''GET'' ''http://a/'' # es"
    using force_refresh[OF s fl, THEN conjunct2, THEN conjunct1] mt b
    by (simp add: flags0_def)
  have u: "useCache ?f" by simp
  have pre: \<open>int 0 < maxTries ?f \<and> (\<forall>k<0. attempt_fails ?f ?w ?g k) \<and> builds ?f ?w ?g 0
      \<and> response ?f ?w ?g 0 = Body ''{"x":1}''
      \<and> json_decode ?w ''{"x":1}'' = Some (JObject [''x'' \<mapsto> 1])\<close>
    using b by (simp add: response_def flags0_def world0_def)
  have 3: \<open>\<exists>es. snd (snd (doCurl_loop ?f ?w ?g 0))
        = es @ [WriteFile ''/tmp/jqurl_http://a/1000'' ''{"x":1}'']\<close>
    using force_refresh[OF s fl, THEN conjunct2, THEN conjunct2, THEN conjunct1, rule_format,
        OF u pre]
    by (simp add: cacheFile_def flags0_def world0_def)
  have m: \<open>main ?f ?w
     = Some (0, [Stat ''/tmp/jqurl_http://a/1000'', Stat ''/tmp/jqurl_http://b/1000'',
                 Request ''GET'' ''http://a/'',
                 WriteFile ''/tmp/jqurl_http://a/1000'' ''{"x":1}'', Stdout (''|'' @ newline)])\<close>
    by (simp add: Let_def main_def cacheFile_def json_Unmarshal_def doCurl_def doCurl_loop.simps
        attempt_def request_events_def post_file_def
        run_query_def emit.simps after_def render_def debug_value_def flags0_def world0_def)
  from m 2 3 show ?thesis unfolding g by blast
qed

section \<open>C6: exhaustion is not an error\<close>

text \<open>
  C6, as the code has it. Let \<open>main\<close> reach \<open>doCurl\<close> with an empty \<open>dat\<close>, let \<open>maxTries\<close>
  be the natural number \<open>M\<close> and let each of the attempts \<open>0, \<dots>, M - 1\<close> fail,
  leaving \<open>dat\<close> empty. Then the process is not ended by the loop: after the calls of the scan and of the loop,
  the query runs on the empty document. If the query compiles, the iterator yields
  finitely many values, none of them an error, and the output file, when one is
  configured, can be created for each value, then the process ends with exit code 0.
\<close>

theorem exhaustion_runs_query:
  fixes w :: "'v world"
  assumes "startup_ok f w us"
    and "cache_scan f w (tl (argv f)) 0 (replicate (length (tl (argv f))) []) = (cfs, Map.empty, es0)"
    and "maxTries f = int M"
    and "\<forall>k<M. attempt_fails f w (globals_of f us cfs Map.empty) k"
  shows "\<exists>es. net_events es
           = concat (map (round_robin f (globals_of f us cfs (Map.empty :: string \<rightharpoonup> 'v))) [0..<M])
     \<and> main f w = after (es0 @ es) (run_query f w (globals_of f us cfs Map.empty))
     \<and> (gojq_Parse w (hd (argv f)) \<and> yields (query_Run w (hd (argv f)) Map.empty) n v
          \<and> (outputFile f = [] \<or> (\<forall>k<n. os_Create w k (outputFile f)))
        \<longrightarrow> main f w = Some (0, es0 @ es @ concat (map (\<lambda>k. result_events f w (v k)) [0..<n])))"
proof -
  let ?g = "globals_of f us cfs (Map.empty :: string \<rightharpoonup> 'v)"
  have wf: "well_formed ?g"
    using globals_well_formed[OF assms(1), of 0 Map.empty] assms(2) by simp
  have e: "dat ?g = Map.empty" by (simp add: globals_of_def)
  from loop_all_fail[OF wf e assms(3,4)]
  obtain es where l: "doCurl_loop f w ?g 0 = (None, dat ?g, es)"
    and ne: "net_events es = concat (map (round_robin f ?g) [0..<M])" by auto
  have "?g\<lparr>dat := dat ?g\<rparr> = ?g" by simp
  then have "doCurl f w ?g = after es (run_query f w ?g)"
    by (simp add: doCurl_def l)
  then have m: "main f w = after (es0 @ es) (run_query f w ?g)"
    by (simp only: main_started[OF assms(1)] assms(2) prod.case after_after)
  have ex: "main f w = Some (0, es0 @ es @ concat (map (\<lambda>k. result_events f w (v k)) [0..<n]))"
    if h: "gojq_Parse w (hd (argv f)) \<and> yields (query_Run w (hd (argv f)) Map.empty) n v
          \<and> (outputFile f = [] \<or> (\<forall>k<n. os_Create w k (outputFile f)))"
  proof -
    let ?it = "query_Run w (hd (argv f)) (Map.empty :: string \<rightharpoonup> 'v)"
    from h have 1: "\<forall>k<n. ?it (0 + k) = Some (Value (v (0 + k)))" and 2: "?it (0 + n) = None"
      by (simp_all add: yields_def)
    from h have 3: "outputFile f = [] \<or> (\<forall>k<n. os_Create w (0 + k) (outputFile f))" by simp
    from emit_values[OF 1 2 3]
    have "run_query f w ?g = Some (0, concat (map (\<lambda>k. result_events f w (v k)) [0..<n]))"
      using h by (simp add: run_query_def globals_of_def)
    then show ?thesis by (simp add: m after_Some)
  qed
  show ?thesis
  proof (intro exI[of _ es] conjI impI)
    show "net_events es = concat (map (round_robin f ?g) [0..<M])" by (rule ne)
    show "main f w = after (es0 @ es) (run_query f w ?g)" by (rule m)
    show "main f w = Some (0, es0 @ es @ concat (map (\<lambda>k. result_events f w (v k)) [0..<n]))"
      if "gojq_Parse w (hd (argv f)) \<and> yields (query_Run w (hd (argv f)) Map.empty) n v
          \<and> (outputFile f = [] \<or> (\<forall>k<n. os_Create w k (outputFile f)))"
      using that by (rule ex)
  qed
qed

theorem exhaustion_runs_query_witness:
  "\<exists>es. net_events es
           = [Request ''GET'' ''http://a/'', Request ''GET'' ''http://b/'', Sleep 7000000000]
     \<and> main (flags0\<lparr>maxTries := 2\<rparr>) world0
         = Some (0, [Stat ''/tmp/jqurl_http://a/1000'', Stat ''/tmp/jqurl_http://b/1000'']
                    @ es @ [Stdout newline])"
proof -
  let ?f = "flags0\<lparr>maxTries := 2\<rparr>"
  let ?us = "[''http://a/'', ''http://b/'']"
  let ?cfs = "[''/tmp/jqurl_http://a/1000'', ''/tmp/jqurl_http://b/1000'']"
  let ?g = "globals_of ?f ?us ?cfs (Map.empty :: string \<rightharpoonup> nat)"
  have s: "startup_ok ?f world0 ?us"
    by (simp add: startup_ok_def flags0_def world0_def)
  have sc: "cache_scan ?f world0 (tl (argv ?f)) 0 (replicate (length (tl (argv ?f))) [])
      = (?cfs, Map.empty, [Stat ''/tmp/jqurl_http://a/1000'', Stat ''/tmp/jqurl_http://b/1000''])"
    by (simp add: Let_def cacheFile_def flags0_def world0_def)
  have M: "maxTries ?f = int 2" by simp
  have fl: "\<forall>k<2. attempt_fails ?f world0 ?g k"
    by (simp add: attempt_fails_def builds_def response_def post_file_def flags0_def world0_def)
  have q: "gojq_Parse world0 (hd (argv ?f))
      \<and> yields (query_Run world0 (hd (argv ?f)) Map.empty) 1 (\<lambda>k. 0)
      \<and> (outputFile ?f = [] \<or> (\<forall>k<1. os_Create world0 k (outputFile ?f)))"
    by (simp add: yields_def flags0_def world0_def)
  have rr: "concat (map (round_robin ?f ?g) [0..<2])
      = [Request ''GET'' ''http://a/'', Request ''GET'' ''http://b/'', Sleep 7000000000]"
    by (simp add: upt_rec round_robin_def globals_of_def flags0_def)
  have re: "concat (map (\<lambda>k. result_events ?f world0 (0::nat)) [0..<1]) = [Stdout newline]"
    by (simp add: result_events_def debug_value_def render_def flags0_def world0_def)
  from exhaustion_runs_query[OF s sc M fl, of 1 "\<lambda>k. 0"] q
  show ?thesis unfolding rr re by blast
qed

text \<open>
  The absence of a query error does not by itself give exit code 0. Here both attempts
  fail, the query compiles and yields one value and no error, but the configured
  output file cannot be created: the process ends with exit code 1.
\<close>

theorem exhaustion_runs_query_counterexample:
  "gojq_Parse (world0\<lparr>os_Create := (\<lambda>k p. False)\<rparr>) ''.x''
   \<and> query_Run (world0\<lparr>os_Create := (\<lambda>k p. False)\<rparr>) ''.x'' Map.empty 0 = Some (Value 0)
   \<and> query_Run (world0\<lparr>os_Create := (\<lambda>k p. False)\<rparr>) ''.x'' Map.empty 1 = None
   \<and> main (flags0\<lparr>maxTries := 2, outputFile := ''/nonexistent/out''\<rparr>)
          (world0\<lparr>os_Create := (\<lambda>k p. False)\<rparr>)
       = Some (1, [Stat ''/tmp/jqurl_http://a/1000'', Stat ''/tmp/jqurl_http://b/1000'',
                   Request ''GET'' ''http://a/'', Request ''GET'' ''http://b/'', Sleep 7000000000,
                   Create ''/nonexistent/out''])"
  by (simp add: Let_def main_def cacheFile_def json_Unmarshal_def doCurl_def
      doCurl_loop.simps attempt_def request_events_def post_file_def sleep_check_def
      run_query_def emit.simps after_def render_def debug_value_def flags0_def world0_def)

section \<open>C7: errors that are fatal in debug mode only\<close>

text \<open>
  C7. Let the request of attempt \<open>j\<close> be sent and answered with a body, in a loop that
  runs this attempt (\<open>j < maxTries\<close>, \<open>dat\<close> empty). If \<open>json.Unmarshal\<close> rejects the
  body, the iteration ends the process with code 1 exactly when \<open>debug\<close> is on; with
  \<open>debug\<close> off it reaches the end of the body, with no \<open>break\<close> and no cache write, and
  when the rejected body has left \<open>dat\<close> empty the loop goes on with attempt \<open>j + 1\<close>. If
  the body is accepted, caching is on and the cache file cannot be written, the
  iteration ends the process with code 1 exactly when \<open>debug\<close> is on; with \<open>debug\<close> off
  the loop ends by \<open>break\<close> with the decoded document in \<open>dat\<close>.
\<close>

theorem debug_promotion:
  assumes "well_formed g" and "dat g = Map.empty" and "int j < maxTries f"
    and "builds f w g j" and "response f w g j = Body byt"
  shows "(json_decode w byt = None \<longrightarrow>
            fst (attempt f w g j) = (if debug f then Abort 1 else Continue)
            \<and> snd (snd (attempt f w g j))
                = request_events f g (j mod length (Args g))
                    @ (if debug f then [] else sleep_check f g (j mod length (Args g)))
            \<and> (debug f \<longrightarrow>
                 fst (doCurl_loop f w g j) = Some 1
                 \<and> snd (snd (doCurl_loop f w g j)) = request_events f g (j mod length (Args g)))
            \<and> (\<not> debug f \<and> json_partial w byt = Map.empty \<longrightarrow>
                 doCurl_loop f w g j =
                   (case doCurl_loop f w g (Suc j) of
                      (r, d, es) \<Rightarrow>
                        (r, d, request_events f g (j mod length (Args g))
                                 @ sleep_check f g (j mod length (Args g)) @ es))))
       \<and> (json_decode w byt \<noteq> None \<and> useCache f
            \<and> \<not> write_File w (cacheFiles g ! (j mod length (Args g))) byt \<longrightarrow>
            fst (attempt f w g j) = (if debug f then Abort 1 else Break)
            \<and> doCurl_loop f w g j =
                (if debug f then Some 1 else None, snd (json_Unmarshal w byt Map.empty),
                 request_events f g (j mod length (Args g))
                   @ [WriteFile (cacheFiles g ! (j mod length (Args g))) byt]))"
proof -
  let ?i = "j mod length (Args g)"
  have a: "attempt f w g j =
      (if debug f then (Abort 1, json_partial w byt, request_events f g ?i)
       else (Continue, json_partial w byt, request_events f g ?i @ sleep_check f g ?i))"
    if n: "json_decode w byt = None"
    by (simp add: attempt_built[OF assms(1,4)] assms(2,5) n json_Unmarshal_def Let_def)
  have l: "doCurl_loop f w g j = (Some 1, json_partial w byt, request_events f g ?i)"
    if n: "json_decode w byt = None" and d: "debug f"
    by (subst doCurl_loop.simps) (simp add: a[OF n] assms(2,3) d)
  have geq: "g\<lparr>dat := Map.empty\<rparr> = g"
  proof -
    have "g\<lparr>dat := dat g\<rparr> = g" by simp
    then show ?thesis by (simp only: assms(2))
  qed
  have c: "doCurl_loop f w g j =
             (case doCurl_loop f w g (Suc j) of
                (r, d, es) \<Rightarrow> (r, d, request_events f g ?i @ sleep_check f g ?i @ es))"
    if n: "json_decode w byt = None" and d: "\<not> debug f \<and> json_partial w byt = Map.empty"
    by (subst doCurl_loop.simps) (simp add: a[OF n] assms(2,3) d geq)
  have b: "attempt f w g j =
      (if debug f then Abort 1 else Break, snd (json_Unmarshal w byt Map.empty),
       request_events f g ?i @ [WriteFile (cacheFiles g ! ?i) byt])"
    if h: "json_decode w byt \<noteq> None \<and> useCache f \<and> \<not> write_File w (cacheFiles g ! ?i) byt"
  proof -
    from h obtain doc where doc: "json_decode w byt = Some doc" by auto
    have u: "fst (json_Unmarshal w byt Map.empty) = False"
      by (simp add: json_Unmarshal_def doc split: jdoc.split)
    show ?thesis
      using h u
      by (cases "json_Unmarshal w byt Map.empty")
         (simp add: attempt_built[OF assms(1,4)] assms(2,5) Let_def)
  qed
  show ?thesis
  proof (intro conjI impI)
    assume n: "json_decode w byt = None"
    show "fst (attempt f w g j) = (if debug f then Abort 1 else Continue)"
      by (simp add: a[OF n])
  next
    assume n: "json_decode w byt = None"
    show "snd (snd (attempt f w g j))
            = request_events f g ?i @ (if debug f then [] else sleep_check f g ?i)"
      by (simp add: a[OF n])
  next
    assume n: "json_decode w byt = None" and d: "debug f"
    show "fst (doCurl_loop f w g j) = Some 1" by (simp add: l[OF n d])
  next
    assume n: "json_decode w byt = None" and d: "debug f"
    show "snd (snd (doCurl_loop f w g j)) = request_events f g ?i" by (simp add: l[OF n d])
  next
    assume n: "json_decode w byt = None" and d: "\<not> debug f \<and> json_partial w byt = Map.empty"
    show "doCurl_loop f w g j =
             (case doCurl_loop f w g (Suc j) of
                (r, d, es) \<Rightarrow> (r, d, request_events f g ?i @ sleep_check f g ?i @ es))"
      by (rule c[OF n d])
  next
    assume h: "json_decode w byt \<noteq> None \<and> useCache f \<and> \<not> write_File w (cacheFiles g ! ?i) byt"
    show "fst (attempt f w g j) = (if debug f then Abort 1 else Break)"
      by (simp add: b[OF h])
  next
    assume h: "json_decode w byt \<noteq> None \<and> useCache f \<and> \<not> write_File w (cacheFiles g ! ?i) byt"
    show "doCurl_loop f w g j =
            (if debug f then Some 1 else None, snd (json_Unmarshal w byt Map.empty),
             request_events f g ?i @ [WriteFile (cacheFiles g ! ?i) byt])"
      by (subst doCurl_loop.simps) (simp add: b[OF h] assms(2,3))
  qed
qed

theorem debug_promotion_witness:
  \<open>fst (attempt flags0 (world0\<lparr>client_Do := (\<lambda>j m u. Body ''<html>'')\<rparr>) globals0 0) = Continue
   \<and> fst (attempt (flags0\<lparr>debug := True\<rparr>) (world0\<lparr>client_Do := (\<lambda>j m u. Body ''<html>'')\<rparr>)
        globals0 0) = Abort 1
   \<and> fst (doCurl_loop (flags0\<lparr>debug := True\<rparr>) (world0\<lparr>client_Do := (\<lambda>j m u. Body ''<html>'')\<rparr>)
        globals0 0) = Some 1
   \<and> doCurl_loop (flags0\<lparr>maxTries := 2\<rparr>) (world0\<lparr>client_Do := (\<lambda>j m u. Body ''<html>'')\<rparr>)
        globals0 0
       = (None, Map.empty,
          [Request ''GET'' ''http://a/'', Request ''GET'' ''http://b/'', Sleep 7000000000])
   \<and> doCurl_loop (flags0\<lparr>useCache := True\<rparr>)
        (world0\<lparr>client_Do := (\<lambda>j m u. Body ''{"x":1}''), write_File := (\<lambda>p b. False)\<rparr>) globals0 0
       = (None, [''x'' \<mapsto> 1], [Request ''GET'' ''http://a/'', WriteFile ''/tmp/a'' ''{"x":1}''])
   \<and> doCurl_loop (flags0\<lparr>useCache := True, debug := True\<rparr>)
        (world0\<lparr>client_Do := (\<lambda>j m u. Body ''{"x":1}''), write_File := (\<lambda>p b. False)\<rparr>) globals0 0
       = (Some 1, [''x'' \<mapsto> 1],
          [Stdout (''Request Header: content-type: application/json'' @ newline),
           Request ''GET'' ''http://a/'', WriteFile ''/tmp/a'' ''{"x":1}''])\<close>
proof -
  have wf: "well_formed globals0" by (simp add: well_formed_def globals0_def)
  have e: "dat globals0 = Map.empty" by (simp add: globals0_def)
  let ?h = "world0\<lparr>client_Do := (\<lambda>j m u. Body ''<html>'')\<rparr>"
  let ?x = \<open>world0\<lparr>client_Do := (\<lambda>j m u. Body ''{"x":1}''), write_File := (\<lambda>p b. False)\<rparr>\<close>
  have 1: "fst (attempt flags0 ?h globals0 0) = Continue"
    using debug_promotion[where g = globals0 and j = 0 and f = flags0 and w = ?h
        and byt = "''<html>''", OF wf e]
    by (simp add: flags0_def world0_def response_def builds_def post_file_def)
  have 2: "fst (attempt (flags0\<lparr>debug := True\<rparr>) ?h globals0 0) = Abort 1"
    using debug_promotion[where g = globals0 and j = 0 and f = "flags0\<lparr>debug := True\<rparr>"
        and w = ?h and byt = "''<html>''", OF wf e]
    by (simp add: flags0_def world0_def response_def builds_def post_file_def)
  have 3: "fst (doCurl_loop (flags0\<lparr>debug := True\<rparr>) ?h globals0 0) = Some 1"
    using debug_promotion[where g = globals0 and j = 0 and f = "flags0\<lparr>debug := True\<rparr>"
        and w = ?h and byt = "''<html>''", OF wf e]
    by (simp add: flags0_def world0_def response_def builds_def post_file_def)
  have s: "doCurl_loop (flags0\<lparr>maxTries := 2\<rparr>) ?h globals0 (Suc 0)
       = (None, Map.empty, [Request ''GET'' ''http://b/'', Sleep 7000000000])"
    by (simp add: doCurl_loop.simps attempt_def request_events_def post_file_def sleep_check_def
        json_Unmarshal_def flags0_def world0_def globals0_def)
  have 4: "doCurl_loop (flags0\<lparr>maxTries := 2\<rparr>) ?h globals0 0
       = (None, Map.empty,
          [Request ''GET'' ''http://a/'', Request ''GET'' ''http://b/'', Sleep 7000000000])"
    using debug_promotion[where g = globals0 and j = 0 and f = "flags0\<lparr>maxTries := 2\<rparr>"
        and w = ?h and byt = "''<html>''", OF wf e]
    by (simp add: s) (simp add: flags0_def world0_def response_def builds_def post_file_def
        request_events_def sleep_check_def globals0_def)
  have 5: \<open>doCurl_loop (flags0\<lparr>useCache := True\<rparr>) ?x globals0 0
       = (None, [''x'' \<mapsto> 1], [Request ''GET'' ''http://a/'', WriteFile ''/tmp/a'' ''{"x":1}''])\<close>
    using debug_promotion[where g = globals0 and j = 0 and f = "flags0\<lparr>useCache := True\<rparr>"
        and w = ?x and byt = \<open>''{"x":1}''\<close>, OF wf e]
    by (simp add: flags0_def world0_def response_def builds_def post_file_def json_Unmarshal_def
        request_events_def globals0_def)
  have 6: \<open>doCurl_loop (flags0\<lparr>useCache := True, debug := True\<rparr>) ?x globals0 0
       = (Some 1, [''x'' \<mapsto> 1],
          [Stdout (''Request Header: content-type: application/json'' @ newline),
           Request ''GET'' ''http://a/'', WriteFile ''/tmp/a'' ''{"x":1}''])\<close>
    using debug_promotion[where g = globals0 and j = 0
        and f = "flags0\<lparr>useCache := True, debug := True\<rparr>" and w = ?x
        and byt = \<open>''{"x":1}''\<close>, OF wf e]
    by (simp add: flags0_def world0_def response_def builds_def post_file_def json_Unmarshal_def
        request_events_def globals0_def header_line_def)
  from 1 2 3 4 5 6 show ?thesis by blast
qed

text \<open>
  The loop does not go on after every rejected body. With \<open>debug\<close> off, two targets
  and \<open>maxTries = 3\<close>, the body \<open>{"a":1e999}\<close> is rejected by \<open>json.Unmarshal\<close> after
  the key \<open>a\<close> was stored: attempt 0 reaches the end of the body, and the loop ends
  there, by its condition, with two tries left and the second target never asked.
\<close>

theorem debug_promotion_counterexample:
  \<open>\<not> debug (flags0\<lparr>maxTries := 3\<rparr>) \<and> int (Suc 0) < maxTries (flags0\<lparr>maxTries := 3\<rparr>)
   \<and> response (flags0\<lparr>maxTries := 3\<rparr>) (world0\<lparr>client_Do := (\<lambda>j m u. Body ''{"a":1e999}'')\<rparr>)
        globals0 0 = Body ''{"a":1e999}''
   \<and> fst (json_Unmarshal (world0\<lparr>client_Do := (\<lambda>j m u. Body ''{"a":1e999}'')\<rparr>)
          ''{"a":1e999}'' (dat globals0))
   \<and> attempt (flags0\<lparr>maxTries := 3\<rparr>) (world0\<lparr>client_Do := (\<lambda>j m u. Body ''{"a":1e999}'')\<rparr>)
        globals0 0
       = (Continue, [''a'' \<mapsto> 0], [Request ''GET'' ''http://a/''])
   \<and> doCurl_loop (flags0\<lparr>maxTries := 3\<rparr>) (world0\<lparr>client_Do := (\<lambda>j m u. Body ''{"a":1e999}'')\<rparr>)
        globals0 0
       = (None, [''a'' \<mapsto> 0], [Request ''GET'' ''http://a/''])\<close>
  by (simp add: doCurl_loop.simps attempt_def response_def request_events_def post_file_def
      sleep_check_def json_Unmarshal_def flags0_def world0_def globals0_def)

section \<open>C8: the loop stops with the first document\<close>

text \<open>
  C8. The loop keeps one document, the variable \<open>dat\<close>. Entered with a non-empty \<open>dat\<close>,
  the loop does nothing: no call is made and \<open>dat\<close> is returned as it is. Entered with
  an empty \<open>dat\<close> and ended with a non-empty one: the document is what one call of
  \<open>json.Unmarshal\<close> stored in the empty map, from the body of the answer to the
  request of one iteration \<open>k\<close>, whether that call returned an error or not; every
  iteration before \<open>k\<close> left \<open>dat\<close> empty; and the calls of the loop end with the calls
  of iteration \<open>k\<close>, whose only request is the one that fetched the document, so nothing
  is fetched once \<open>dat\<close> is non-empty. The loop never looks a cache file up (\<open>os.Stat\<close>,
  \<open>ReadFile\<close>), and after the loop \<open>doCurl\<close> sends no request, does not sleep and makes no
  call on a cache file: the rest of the run is the output of the query.
\<close>

theorem success_invariant:
  "(dat g \<noteq> Map.empty \<longrightarrow> doCurl_loop f w g j = (None, dat g, []))
   \<and> (dat g = Map.empty \<longrightarrow>
        (\<forall>r d es. doCurl_loop f w g j = (r, d, es) \<and> d \<noteq> Map.empty \<longrightarrow>
           (\<exists>k c es0 es1 byt. j \<le> k \<and> int k < maxTries f
              \<and> (\<forall>i. j \<le> i \<and> i < k \<longrightarrow> fst (snd (attempt f w g i)) = Map.empty)
              \<and> attempt f w g k = (c, d, es1)
              \<and> response f w g k = Body byt \<and> d = snd (json_Unmarshal w byt Map.empty)
              \<and> es = es0 @ es1
              \<and> filter is_Request es1
                  = [Request (httpMethod f) (urls g ! (k mod length (Args g)))])))
   \<and> filter (\<lambda>e. is_Stat e \<or> is_ReadFile e) (snd (snd (doCurl_loop f w g j))) = []
   \<and> (\<forall>r. doCurl f w g = Some r \<longrightarrow>
        (\<exists>q. snd r = snd (snd (doCurl_loop f w g 0)) @ q
           \<and> filter (\<lambda>e. is_Request e \<or> is_Sleep e \<or> is_WriteFile e \<or> is_ReadFile e \<or> is_Stat e) q = []))"
proof (intro conjI impI allI)
  assume "dat g \<noteq> Map.empty"
  then show "doCurl_loop f w g j = (None, dat g, [])" by (rule loop_stopped)
next
  fix r d es
  assume e: "dat g = Map.empty" and l: "doCurl_loop f w g j = (r, d, es) \<and> d \<noteq> Map.empty"
  from l have l1: "doCurl_loop f w g j = (r, d, es)" and ne: "d \<noteq> Map.empty" by simp_all
  from loop_ends[OF e l1 ne]
  obtain k c es0 es1 where k: "j \<le> k" "int k < maxTries f"
    "\<forall>i. j \<le> i \<and> i < k \<longrightarrow> fst (snd (attempt f w g i)) = Map.empty"
    "attempt f w g k = (c, d, es1)" "es = es0 @ es1"
    by blast
  from attempt_fills[OF k(4) e ne]
  obtain byt where b: "response f w g k = Body byt" "d = snd (json_Unmarshal w byt Map.empty)"
    "filter is_Request es1 = [Request (httpMethod f) (urls g ! (k mod length (Args g)))]"
    by blast
  show "\<exists>k c es0 es1 byt. j \<le> k \<and> int k < maxTries f
              \<and> (\<forall>i. j \<le> i \<and> i < k \<longrightarrow> fst (snd (attempt f w g i)) = Map.empty)
              \<and> attempt f w g k = (c, d, es1)
              \<and> response f w g k = Body byt \<and> d = snd (json_Unmarshal w byt Map.empty)
              \<and> es = es0 @ es1
              \<and> filter is_Request es1
                  = [Request (httpMethod f) (urls g ! (k mod length (Args g)))]"
  proof (rule exI[of _ k], rule exI[of _ c], rule exI[of _ es0], rule exI[of _ es1],
      rule exI[of _ byt], intro conjI)
    show "j \<le> k" by (rule k(1))
    show "int k < maxTries f" by (rule k(2))
    show "\<forall>i. j \<le> i \<and> i < k \<longrightarrow> fst (snd (attempt f w g i)) = Map.empty" by (rule k(3))
    show "attempt f w g k = (c, d, es1)" by (rule k(4))
    show "response f w g k = Body byt" by (rule b(1))
    show "d = snd (json_Unmarshal w byt Map.empty)" by (rule b(2))
    show "es = es0 @ es1" by (rule k(5))
    show "filter is_Request es1 = [Request (httpMethod f) (urls g ! (k mod length (Args g)))]"
      by (rule b(3))
  qed
next
  show "filter (\<lambda>e. is_Stat e \<or> is_ReadFile e) (snd (snd (doCurl_loop f w g j))) = []"
    by (rule loop_no_lookup)
next
  fix r
  assume "doCurl f w g = Some r"
  then show "\<exists>q. snd r = snd (snd (doCurl_loop f w g 0)) @ q
           \<and> filter (\<lambda>e. is_Request e \<or> is_Sleep e \<or> is_WriteFile e \<or> is_ReadFile e \<or> is_Stat e) q = []"
    by (rule doCurl_events)
qed

theorem success_invariant_witness:
  \<open>doCurl_loop flags0 world0 (globals0\<lparr>dat := [''x'' \<mapsto> 1]\<rparr>) 0 = (None, [''x'' \<mapsto> 1], [])
   \<and> doCurl_loop flags0 (world0\<lparr>client_Do := (\<lambda>j m u. if j = 0 then ReadError else Body ''{"a":1e999}'')\<rparr>)
        globals0 0
       = (None, [''a'' \<mapsto> 0],
          [Request ''GET'' ''http://a/'', Request ''GET'' ''http://b/'', Sleep 7000000000])
   \<and> (\<exists>k c es0 es1 byt. k < 30
         \<and> attempt flags0 (world0\<lparr>client_Do := (\<lambda>j m u. if j = 0 then ReadError else Body ''{"a":1e999}'')\<rparr>)
             globals0 k = (c, [''a'' \<mapsto> 0], es1)
         \<and> [''a'' \<mapsto> 0]
             = snd (json_Unmarshal (world0\<lparr>client_Do := (\<lambda>j m u. if j = 0 then ReadError else Body ''{"a":1e999}'')\<rparr>)
                      byt Map.empty)
         \<and> [Request ''GET'' ''http://a/'', Request ''GET'' ''http://b/'', Sleep 7000000000] = es0 @ es1
         \<and> filter is_Request es1 = [Request ''GET'' ([''http://a/'', ''http://b/''] ! (k mod 2))])
   \<and> doCurl flags0 (world0\<lparr>client_Do := (\<lambda>j m u. if j = 0 then ReadError else Body ''{"a":1e999}'')\<rparr>)
        globals0
       = Some (0, [Request ''GET'' ''http://a/'', Request ''GET'' ''http://b/'', Sleep 7000000000,
                   Stdout newline])
   \<and> (\<exists>q. [Request ''GET'' ''http://a/'', Request ''GET'' ''http://b/'', Sleep 7000000000,
             Stdout newline]
            = [Request ''GET'' ''http://a/'', Request ''GET'' ''http://b/'', Sleep 7000000000] @ q
         \<and> filter (\<lambda>e. is_Request e \<or> is_Sleep e \<or> is_WriteFile e \<or> is_ReadFile e \<or> is_Stat e) q = [])\<close>
proof -
  let ?p = \<open>world0\<lparr>client_Do := (\<lambda>j m u. if j = 0 then ReadError else Body ''{"a":1e999}'')\<rparr>\<close>
  let ?es = "[Request ''GET'' ''http://a/'', Request ''GET'' ''http://b/'', Sleep 7000000000]"
  have 1: "doCurl_loop flags0 world0 (globals0\<lparr>dat := [''x'' \<mapsto> 1]\<rparr>) 0 = (None, [''x'' \<mapsto> 1], [])"
    using success_invariant[of "globals0\<lparr>dat := [''x'' \<mapsto> 1]\<rparr>" flags0 world0 0]
    by simp
  have 2: "doCurl_loop flags0 ?p globals0 0 = (None, [''a'' \<mapsto> 0], ?es)"
    by (simp add: doCurl_loop.simps attempt_def request_events_def post_file_def sleep_check_def
        json_Unmarshal_def flags0_def world0_def globals0_def)
  have e: "dat globals0 = Map.empty" by (simp add: globals0_def)
  have ne: "[''a'' \<mapsto> (0::nat)] \<noteq> Map.empty" by simp
  from success_invariant[of globals0 flags0 ?p 0, THEN conjunct2, THEN conjunct1, rule_format,
      OF e conjI[OF 2 ne]]
  have 3: "\<exists>k c es0 es1 byt. k < 30
         \<and> attempt flags0 ?p globals0 k = (c, [''a'' \<mapsto> 0], es1)
         \<and> [''a'' \<mapsto> 0] = snd (json_Unmarshal ?p byt Map.empty)
         \<and> ?es = es0 @ es1
         \<and> filter is_Request es1 = [Request ''GET'' ([''http://a/'', ''http://b/''] ! (k mod 2))]"
    by (simp add: flags0_def globals0_def numeral_2_eq_2) blast
  have 4: "doCurl flags0 ?p globals0 = Some (0, ?es @ [Stdout newline])"
    by (simp only: doCurl_def 2 prod.case option.case)
       (simp add: run_query_def emit.simps after_def render_def debug_value_def
        flags0_def world0_def globals0_def)
  from success_invariant[of globals0 flags0 ?p 0, THEN conjunct2, THEN conjunct2, THEN conjunct2,
      rule_format, OF 4]
  have 5: "\<exists>q. ?es @ [Stdout newline] = ?es @ q
         \<and> filter (\<lambda>e. is_Request e \<or> is_Sleep e \<or> is_WriteFile e \<or> is_ReadFile e \<or> is_Stat e) q = []"
    by (simp add: 2)
  from 1 2 3 4 5 show ?thesis by simp
qed

section \<open>C9: the scan ends at the first fresh and readable cache file\<close>

text \<open>
  C9, as the code has it. Let \<open>main\<close> reach the cache scan with caching on and
  \<open>flush\<close> off, and let target
  \<open>i0\<close> be the first that has a readable cache file, the targets before it having no
  cache file or an unreadable one; let this file be fresh (not written in the future
  and younger than \<open>maxAge\<close>), with content \<open>byt\<close>. Then the scan makes the calls of the
  targets before \<open>i0\<close>, then \<open>Stat\<close> and \<open>ReadFile\<close> on the cache file of \<open>i0\<close>, and
  nothing else: \<open>i0 + 1\<close> calls of \<open>os.Stat\<close> in all, none for a later target. \<open>doCurl\<close>
  starts with \<open>dat\<close> as \<open>json.Unmarshal\<close> left it, whatever the content and whether the
  call returned an error or not. When the content is invalid, so that the call returns
  an error and has stored nothing, \<open>dat\<close> is empty and the run of \<open>main\<close> is the scan,
  then the retry loop from the counter 0, then (unless an iteration ended the process)
  the query on the document the loop produced. With a positive \<open>maxTries\<close> and a request
  that can be built, the first request of the loop goes to \<open>urls[0]\<close>, and it is the
  first request or delay of the whole run.
\<close>

theorem scan_stops_at_first_hit:
  fixes w :: "'v world"
  assumes start: "startup_ok f w us" and "useCache f" and "\<not> flush f"
    and "i0 < length (tl (argv f))"
    and "\<forall>k<i0. os_Stat w (cacheFile f w (tl (argv f) ! k)) = None
               \<or> read_File w (cacheFile f w (tl (argv f) ! k)) = None"
    and "os_Stat w (cacheFile f w (tl (argv f) ! i0)) = Some mtime"
    and "mtime \<le> time_Now w i0" and "time_Now w i0 < mtime + maxAge f"
    and rd: "read_File w (cacheFile f w (tl (argv f) ! i0)) = Some byt"
  shows "\<exists>cfs.
     main f w =
       after (concat (map (\<lambda>k. miss_events f w k (tl (argv f) ! k)) [0..<i0])
                @ [Stat (cacheFile f w (tl (argv f) ! i0)), ReadFile (cacheFile f w (tl (argv f) ! i0))])
         (doCurl f w (globals_of f us cfs (snd (json_Unmarshal w byt Map.empty))))
     \<and> length (filter is_Stat
          (concat (map (\<lambda>k. miss_events f w k (tl (argv f) ! k)) [0..<i0])
             @ [Stat (cacheFile f w (tl (argv f) ! i0)), ReadFile (cacheFile f w (tl (argv f) ! i0))]))
         = Suc i0
     \<and> (json_decode w byt = None \<and> json_partial w byt = Map.empty \<longrightarrow>
          snd (json_Unmarshal w byt Map.empty) = (Map.empty :: string \<rightharpoonup> 'v)
          \<and> main f w =
              (case doCurl_loop f w (globals_of f us cfs Map.empty) 0 of
                 (Some n, d, es) \<Rightarrow>
                   Some (n, concat (map (\<lambda>k. miss_events f w k (tl (argv f) ! k)) [0..<i0])
                              @ [Stat (cacheFile f w (tl (argv f) ! i0)),
                                 ReadFile (cacheFile f w (tl (argv f) ! i0))] @ es)
               | (None, d, es) \<Rightarrow>
                   after (concat (map (\<lambda>k. miss_events f w k (tl (argv f) ! k)) [0..<i0])
                            @ [Stat (cacheFile f w (tl (argv f) ! i0)),
                               ReadFile (cacheFile f w (tl (argv f) ! i0))] @ es)
                     (run_query f w (globals_of f us cfs d)))
          \<and> (0 < maxTries f \<and> builds f w (globals_of f us cfs Map.empty) 0 \<longrightarrow>
               (\<exists>es. net_events (snd (snd (doCurl_loop f w (globals_of f us cfs Map.empty) 0)))
                        = Request (httpMethod f) (us ! 0) # es)
               \<and> (\<forall>r. main f w = Some r \<longrightarrow>
                    (\<exists>es. net_events (snd r) = Request (httpMethod f) (us ! 0) # es))))"
proof -
  let ?A = "tl (argv f)"
  let ?p = "cacheFile f w (?A ! i0)"
  let ?ms = "concat (map (\<lambda>k. miss_events f w k (?A ! k)) [0..<i0])"
  let ?es = "?ms @ [Stat ?p, ReadFile ?p]"
  let ?g = "globals_of f us cfs (Map.empty :: string \<rightharpoonup> 'v)"
  have fh: "first_hit f w (tl (argv f)) i0"
    by (rule fresh_readable_first_hit[OF assms(2-9)])
  from fh have i0: "i0 < length ?A" and hit: "cache_hit f w (0 + i0) (?A ! i0)"
    and miss: "\<forall>k<i0. \<not> cache_hit f w (0 + k) (?A ! k)"
    by (simp_all add: first_hit_def)
  from scan_first_hit[OF i0 hit miss rd, of "replicate (length ?A) []"]
  obtain cfs where sc: "cache_scan f w ?A 0 (replicate (length ?A) [])
      = (cfs, snd (json_Unmarshal w byt Map.empty), ?es)"
    by auto
  have m: "main f w = after ?es (doCurl f w (globals_of f us cfs (snd (json_Unmarshal w byt Map.empty))))"
    by (simp only: main_started[OF start] sc prod.case)
  have st: "length (filter is_Stat ?es) = Suc i0"
    using concat_miss_Stat[of f w 0 ?A "[0..<i0]"] by simp
  have wf: "well_formed (globals_of f us cfs d)" for d :: "string \<rightharpoonup> 'v"
    using globals_well_formed[OF start, of 0 d] sc by simp
  have e: "dat (globals_of f us cfs (Map.empty :: string \<rightharpoonup> 'v)) = Map.empty"
    by (simp add: globals_of_def)
  have u: "urls (globals_of f us cfs (Map.empty :: string \<rightharpoonup> 'v)) = us"
    by (simp add: globals_of_def)
  have nes: "net_events ?es = []"
    using net_miss_events[of f w 0 ?A "[0..<i0]"] by (simp add: net_append) (simp add: net_events_def)
  have 3: "\<exists>es. net_events (snd (snd (doCurl_loop f w (globals_of f us cfs Map.empty) 0)))
                 = Request (httpMethod f) (us ! 0) # es"
    if h: "0 < maxTries f \<and> builds f w (globals_of f us cfs Map.empty) 0"
  proof -
    from h have a: "0 < maxTries f" and b: "builds f w (globals_of f us cfs Map.empty) 0"
      by simp_all
    from loop_first_request[OF wf e a b] show ?thesis unfolding u .
  qed
  have 4: "snd (json_Unmarshal w byt Map.empty) = (Map.empty :: string \<rightharpoonup> 'v)"
    if "json_decode w byt = None \<and> json_partial w byt = Map.empty"
    using that by (simp add: json_Unmarshal_def)
  have 5: "main f w =
              (case doCurl_loop f w (globals_of f us cfs Map.empty) 0 of
                 (Some n, d, es) \<Rightarrow> Some (n, ?ms @ [Stat ?p, ReadFile ?p] @ es)
               | (None, d, es) \<Rightarrow>
                   after (?ms @ [Stat ?p, ReadFile ?p] @ es) (run_query f w (globals_of f us cfs d)))"
    if inv: "json_decode w byt = None \<and> json_partial w byt = Map.empty"
  proof -
    obtain x d es where l: "doCurl_loop f w (globals_of f us cfs (Map.empty :: string \<rightharpoonup> 'v)) 0 = (x, d, es)"
      by (cases "doCurl_loop f w (globals_of f us cfs (Map.empty :: string \<rightharpoonup> 'v)) 0") auto
    have gd: "(globals_of f us cfs (Map.empty :: string \<rightharpoonup> 'v))\<lparr>dat := d\<rparr> = globals_of f us cfs d"
      by (simp add: globals_of_def)
    show ?thesis
      by (cases x) (simp_all add: m 4[OF inv] doCurl_def l gd after_Some after_after)
  qed
  have 6: "\<exists>es. net_events (snd r) = Request (httpMethod f) (us ! 0) # es"
    if inv: "json_decode w byt = None \<and> json_partial w byt = Map.empty"
      and h: "0 < maxTries f \<and> builds f w (globals_of f us cfs Map.empty) 0"
      and r: "main f w = Some r" for r
  proof -
    from 3[OF h] obtain es1 where
      n1: "net_events (snd (snd (doCurl_loop f w (globals_of f us cfs Map.empty) 0)))
             = Request (httpMethod f) (us ! 0) # es1"
      by auto
    from r m 4[OF inv]
    have "after ?es (doCurl f w (globals_of f us cfs Map.empty)) = Some r" by simp
    then obtain r' where d: "doCurl f w (globals_of f us cfs Map.empty) = Some r'"
      and sr: "snd r = ?es @ snd r'"
      by (auto simp: after_def)
    from doCurl_events[OF d]
    obtain q where "snd r' = snd (snd (doCurl_loop f w (globals_of f us cfs Map.empty) 0)) @ q"
      by auto
    with sr have "net_events (snd r) = Request (httpMethod f) (us ! 0) # (es1 @ net_events q)"
      using nes n1 by (simp only: net_append) simp
    then show ?thesis by (rule exI)
  qed
  show ?thesis
  proof (intro exI[of _ cfs] conjI impI allI)
    show "main f w = after ?es (doCurl f w (globals_of f us cfs (snd (json_Unmarshal w byt Map.empty))))"
      by (rule m)
    show "length (filter is_Stat ?es) = Suc i0" by (rule st)
    show "snd (json_Unmarshal w byt Map.empty) = (Map.empty :: string \<rightharpoonup> 'v)"
      if "json_decode w byt = None \<and> json_partial w byt = Map.empty" using that by (rule 4)
    show "main f w =
              (case doCurl_loop f w (globals_of f us cfs Map.empty) 0 of
                 (Some n, d, es) \<Rightarrow> Some (n, ?ms @ [Stat ?p, ReadFile ?p] @ es)
               | (None, d, es) \<Rightarrow>
                   after (?ms @ [Stat ?p, ReadFile ?p] @ es) (run_query f w (globals_of f us cfs d)))"
      if "json_decode w byt = None \<and> json_partial w byt = Map.empty" using that by (rule 5)
    show "\<exists>es. net_events (snd (snd (doCurl_loop f w (globals_of f us cfs Map.empty) 0)))
                 = Request (httpMethod f) (us ! 0) # es"
      if "0 < maxTries f \<and> builds f w (globals_of f us cfs Map.empty) 0"
      using that by (rule 3)
    show "\<exists>es. net_events (snd r) = Request (httpMethod f) (us ! 0) # es"
      if "json_decode w byt = None \<and> json_partial w byt = Map.empty"
        and "0 < maxTries f \<and> builds f w (globals_of f us cfs Map.empty) 0"
        and "main f w = Some r" for r
      using that by (rule 6)
  qed
qed

theorem scan_stops_at_first_hit_witness:
  \<open>length (filter is_Stat [Stat ''/tmp/jqurl_http://a/1000'', ReadFile ''/tmp/jqurl_http://a/1000''])
     = Suc 0
   \<and> main (flags0\<lparr>useCache := True\<rparr>)
        (world0\<lparr>os_Stat := (\<lambda>p. Some 90), read_File := (\<lambda>p. Some ''<html>''),
                client_Do := (\<lambda>j m u. Body ''{"x":1}'')\<rparr>)
       = Some (0, [Stat ''/tmp/jqurl_http://a/1000'', ReadFile ''/tmp/jqurl_http://a/1000'',
                   Request ''GET'' ''http://a/'', WriteFile ''/tmp/jqurl_http://a/1000'' ''{"x":1}'',
                   Stdout (''|'' @ newline)])
   \<and> (\<exists>es. net_events [Stat ''/tmp/jqurl_http://a/1000'', ReadFile ''/tmp/jqurl_http://a/1000'',
                   Request ''GET'' ''http://a/'', WriteFile ''/tmp/jqurl_http://a/1000'' ''{"x":1}'',
                   Stdout (''|'' @ newline)]
             = Request ''GET'' ''http://a/'' # es)\<close>
proof -
  let ?f = "flags0\<lparr>useCache := True\<rparr>"
  let ?w = \<open>world0\<lparr>os_Stat := (\<lambda>p. Some 90), read_File := (\<lambda>p. Some ''<html>''),
                client_Do := (\<lambda>j m u. Body ''{"x":1}'')\<rparr>\<close>
  let ?us = "[''http://a/'', ''http://b/'']"
  let ?run = \<open>[Stat ''/tmp/jqurl_http://a/1000'', ReadFile ''/tmp/jqurl_http://a/1000'',
                   Request ''GET'' ''http://a/'', WriteFile ''/tmp/jqurl_http://a/1000'' ''{"x":1}'',
                   Stdout (''|'' @ newline)]\<close>
  have s: "startup_ok ?f ?w ?us"
    by (simp add: startup_ok_def flags0_def world0_def)
  have uc: "useCache ?f" and nf: "\<not> flush ?f" and i: "0 < length (tl (argv ?f))"
    by (simp_all add: flags0_def)
  have e: "\<forall>k<0. os_Stat ?w (cacheFile ?f ?w (tl (argv ?f) ! k)) = None
               \<or> read_File ?w (cacheFile ?f ?w (tl (argv ?f) ! k)) = None"
    by simp
  have t: "os_Stat ?w (cacheFile ?f ?w (tl (argv ?f) ! 0)) = Some 90"
    "90 \<le> time_Now ?w 0" "time_Now ?w 0 < 90 + maxAge ?f"
    by (simp_all add: flags0_def world0_def)
  have r: "read_File ?w (cacheFile ?f ?w (tl (argv ?f) ! 0)) = Some ''<html>''"
    by (simp add: world0_def)
  have d: "json_decode ?w ''<html>'' = None \<and> json_partial ?w ''<html>'' = Map.empty"
    by (simp add: world0_def)
  have mt: "0 < maxTries ?f" by (simp add: flags0_def)
  have b: "builds ?f ?w (globals_of ?f ?us cfs Map.empty) 0" for cfs
    by (simp add: builds_def post_file_def flags0_def world0_def)
  have 1: "main ?f ?w = Some (0, ?run)"
    by (simp add: Let_def main_def cacheFile_def json_Unmarshal_def doCurl_def
      doCurl_loop.simps attempt_def request_events_def post_file_def
      run_query_def emit.simps after_def render_def debug_value_def
      flags0_def world0_def)
  from scan_stops_at_first_hit[OF s uc nf i e t r]
  obtain cfs where
    "json_decode ?w ''<html>'' = None \<and> json_partial ?w ''<html>'' = Map.empty \<longrightarrow>
       snd (json_Unmarshal ?w ''<html>'' Map.empty) = (Map.empty :: string \<rightharpoonup> nat)
       \<and> main ?f ?w =
              (case doCurl_loop ?f ?w (globals_of ?f ?us cfs Map.empty) 0 of
                 (Some n, d, es) \<Rightarrow>
                   Some (n, concat (map (\<lambda>k. miss_events ?f ?w k (tl (argv ?f) ! k)) [0..<0])
                              @ [Stat (cacheFile ?f ?w (tl (argv ?f) ! 0)),
                                 ReadFile (cacheFile ?f ?w (tl (argv ?f) ! 0))] @ es)
               | (None, d, es) \<Rightarrow>
                   after (concat (map (\<lambda>k. miss_events ?f ?w k (tl (argv ?f) ! k)) [0..<0])
                            @ [Stat (cacheFile ?f ?w (tl (argv ?f) ! 0)),
                               ReadFile (cacheFile ?f ?w (tl (argv ?f) ! 0))] @ es)
                     (run_query ?f ?w (globals_of ?f ?us cfs d)))
       \<and> (0 < maxTries ?f \<and> builds ?f ?w (globals_of ?f ?us cfs Map.empty) 0 \<longrightarrow>
               (\<exists>es. net_events (snd (snd (doCurl_loop ?f ?w (globals_of ?f ?us cfs Map.empty) 0)))
                        = Request (httpMethod ?f) (?us ! 0) # es)
               \<and> (\<forall>r. main ?f ?w = Some r \<longrightarrow>
                    (\<exists>es. net_events (snd r) = Request (httpMethod ?f) (?us ! 0) # es)))"
    by blast
  with d mt b[of cfs] have "\<forall>r. main ?f ?w = Some r \<longrightarrow>
                    (\<exists>es. net_events (snd r) = Request (httpMethod ?f) (?us ! 0) # es)"
    by blast
  with 1 have "\<exists>es. net_events ?run = Request (httpMethod ?f) (?us ! 0) # es"
    by (metis snd_conv)
  then have "\<exists>es. net_events ?run = Request ''GET'' ''http://a/'' # es"
    by (simp add: flags0_def)
  with 1 show ?thesis by simp
qed

text \<open>
  Not every content that \<open>json.Unmarshal\<close> rejects leaves \<open>dat\<close> empty. The only
  target's cache file is fresh and holds \<open>{"a":1e999}\<close>: the call returns an error, which
  the scan drops, after the key \<open>a\<close> was stored. \<open>dat\<close> is not empty, so the loop does
  not run: the run is the scan and the output of the query, with no request.
\<close>

theorem scan_stops_at_first_hit_counterexample:
  \<open>fst (json_Unmarshal (world0\<lparr>os_Stat := (\<lambda>p. Some 90), read_File := (\<lambda>p. Some ''{"a":1e999}'')\<rparr>)
          ''{"a":1e999}'' Map.empty)
   \<and> snd (json_Unmarshal (world0\<lparr>os_Stat := (\<lambda>p. Some 90), read_File := (\<lambda>p. Some ''{"a":1e999}'')\<rparr>)
          ''{"a":1e999}'' Map.empty) = [''a'' \<mapsto> 0]
   \<and> 0 < maxTries (flags0\<lparr>useCache := True, argv := [''.x'', ''http://a/'']\<rparr>)
   \<and> main (flags0\<lparr>useCache := True, argv := [''.x'', ''http://a/'']\<rparr>)
        (world0\<lparr>os_Stat := (\<lambda>p. Some 90), read_File := (\<lambda>p. Some ''{"a":1e999}'')\<rparr>)
       = Some (0, [Stat ''/tmp/jqurl_http://a/1000'', ReadFile ''/tmp/jqurl_http://a/1000'',
                   Stdout newline])\<close>
  by (simp add: Let_def main_def cacheFile_def json_Unmarshal_def doCurl_def
      doCurl_loop.simps run_query_def emit.simps after_def render_def debug_value_def
      flags0_def world0_def)

section \<open>C10: the output file keeps the last result only\<close>

text \<open>
  C10. Let the iterator yield the values \<open>v 0, \<dots>, v (n - 1)\<close> and end. With an output
  file \<open>p\<close> that can be created each time, the result loop creates \<open>p\<close> once for every
  value and writes that value's text through the new handle; so \<open>p\<close> is created \<open>n\<close>
  times, and when there is at least one value (in particular two or more) \<open>p\<close> holds
  the text of the last value only, whatever it held before. Without an output file
  the same results all appear on standard output, in order (each preceded by its
  \<open>%#v\<close> line when \<open>debug\<close> is on).
\<close>

theorem output_file_keeps_last:
  assumes "yields it n v" and "p \<noteq> []" and "\<forall>k<n. os_Create w k p"
  shows "emit (f\<lparr>outputFile := p\<rparr>) w it 0
           = Some (0, concat (map (\<lambda>k. result_events (f\<lparr>outputFile := p\<rparr>) w (v k)) [0..<n]))
     \<and> length (filter is_Create
          (concat (map (\<lambda>k. result_events (f\<lparr>outputFile := p\<rparr>) w (v k)) [0..<n]))) = n
     \<and> (0 < n \<longrightarrow>
          file_content p (concat (map (\<lambda>k. result_events (f\<lparr>outputFile := p\<rparr>) w (v k)) [0..<n])) c
            = Some (render f w (v (n - 1))))
     \<and> emit (f\<lparr>outputFile := []\<rparr>) w it 0
           = Some (0, concat (map (\<lambda>k. result_events (f\<lparr>outputFile := []\<rparr>) w (v k)) [0..<n]))
     \<and> stdout_of (concat (map (\<lambda>k. result_events (f\<lparr>outputFile := []\<rparr>) w (v k)) [0..<n]))
           = concat (map (\<lambda>k. (if debug f then [fmt_gosyntax w (v k) @ newline] else [])
                                @ [render f w (v k)]) [0..<n])"
proof -
  let ?f = "f\<lparr>outputFile := p\<rparr>" and ?s = "f\<lparr>outputFile := []\<rparr>"
  from assms(1) have 1: "\<forall>k<n. it (0 + k) = Some (Value (v (0 + k)))" and 2: "it (0 + n) = None"
    by (simp_all add: yields_def)
  have 3: "outputFile ?f = [] \<or> (\<forall>k<n. os_Create w (0 + k) (outputFile ?f))"
    using assms(3) by simp
  have 4: "outputFile ?s = [] \<or> (\<forall>k<n. os_Create w (0 + k) (outputFile ?s))" by simp
  have a: "emit ?f w it 0 = Some (0, concat (map (\<lambda>k. result_events ?f w (v k)) [0..<n]))"
    using emit_values[OF 1 2 3] by simp
  have b: "emit ?s w it 0 = Some (0, concat (map (\<lambda>k. result_events ?s w (v k)) [0..<n]))"
    using emit_values[OF 1 2 4] by simp
  have cr: "length (filter is_Create (concat (map (\<lambda>k. result_events ?f w (v k)) ks))) = length ks"
    for ks
    using assms(2) by (induction ks) (simp_all add: result_events_def debug_value_def)
  have r: "render ?f w x = render f w x" "render ?s w x = render f w x" for x
    by (simp_all add: render_def)
  have fc: "file_content p (concat (map (\<lambda>k. result_events ?f w (v k)) [0..<n])) c
            = Some (render f w (v (n - 1)))" if "0 < n"
  proof -
    from that obtain n' where n: "n = Suc n'" by (cases n) auto
    have "outputFile ?f \<noteq> []" using assms(2) by simp
    from file_content_results[OF this, of w v n' c] show ?thesis
      unfolding n by (simp add: r)
  qed
  have so: "stdout_of (concat (map (\<lambda>k. result_events ?s w (v k)) [0..<n]))
           = concat (map (\<lambda>k. (if debug f then [fmt_gosyntax w (v k) @ newline] else [])
                                @ [render f w (v k)]) [0..<n])"
    using stdout_of_results[of ?s w v "[0..<n]"] by (simp add: r)
  show ?thesis
  proof (intro conjI impI)
    show "emit ?f w it 0 = Some (0, concat (map (\<lambda>k. result_events ?f w (v k)) [0..<n]))"
      by (rule a)
    show "length (filter is_Create (concat (map (\<lambda>k. result_events ?f w (v k)) [0..<n]))) = n"
      using cr[of "[0..<n]"] by simp
    show "file_content p (concat (map (\<lambda>k. result_events ?f w (v k)) [0..<n])) c
            = Some (render f w (v (n - 1)))" if "0 < n"
      using that by (rule fc)
    show "emit ?s w it 0 = Some (0, concat (map (\<lambda>k. result_events ?s w (v k)) [0..<n]))"
      by (rule b)
    show "stdout_of (concat (map (\<lambda>k. result_events ?s w (v k)) [0..<n]))
           = concat (map (\<lambda>k. (if debug f then [fmt_gosyntax w (v k) @ newline] else [])
                                @ [render f w (v k)]) [0..<n])"
      by (rule so)
  qed
qed

theorem output_file_keeps_last_witness:
  "emit (flags0\<lparr>outputFile := ''out.json''\<rparr>) world0 (\<lambda>k. if k < 2 then Some (Value (Suc k)) else None) 0
     = Some (0, [Create ''out.json'', FileWrite ''out.json'' (''|'' @ newline),
                 Create ''out.json'', FileWrite ''out.json'' (''||'' @ newline)])
   \<and> file_content ''out.json''
        [Create ''out.json'', FileWrite ''out.json'' (''|'' @ newline),
         Create ''out.json'', FileWrite ''out.json'' (''||'' @ newline)] None
       = Some (''||'' @ newline)
   \<and> stdout_of (concat (map (\<lambda>k. result_events (flags0\<lparr>outputFile := []\<rparr>) world0 (Suc k)) [0..<2]))
       = [''|'' @ newline, ''||'' @ newline]"
proof -
  let ?it = "\<lambda>k. if k < 2 then Some (Value (Suc k)) else None"
  have y: "yields ?it 2 Suc" by (simp add: yields_def)
  have p: "''out.json'' \<noteq> []" by simp
  have c: "\<forall>k<2. os_Create world0 k ''out.json''" by (simp add: world0_def)
  have e: "concat (map (\<lambda>k. result_events (flags0\<lparr>outputFile := ''out.json''\<rparr>) world0 (Suc k)) [0..<2])
      = [Create ''out.json'', FileWrite ''out.json'' (''|'' @ newline),
         Create ''out.json'', FileWrite ''out.json'' (''||'' @ newline)]"
    by (simp add: upt_rec result_events_def debug_value_def render_def flags0_def world0_def
        numeral_2_eq_2)
  have r: "render flags0 world0 (Suc (2 - 1)) = ''||'' @ newline"
    "render flags0 world0 (Suc 0) = ''|'' @ newline"
    by (simp_all add: render_def flags0_def world0_def numeral_2_eq_2)
  have dbg: "\<not> debug flags0" by (simp add: flags0_def)
  from output_file_keeps_last[OF y p c, of flags0 None]
  show ?thesis unfolding e using r dbg by (simp add: upt_rec)
qed

end
